theory Spec2Isabelle
  imports Main "HOL-Library.Word" "HOL-Library.Monad_Syntax"
begin

unbundle bit_operations_syntax

section \<open>Machine types and kernel helpers\<close>

text \<open>
  The driver \<^verbatim>\<open>drivers/hwmon/power8_occ_i2c.c\<close> runs on a 32-bit little-endian
  machine: \<^verbatim>\<open>uint8_t\<close>, \<^verbatim>\<open>uint16_t\<close> and \<^verbatim>\<open>uint32_t\<close> are words of that width,
  \<^verbatim>\<open>unsigned long\<close> has 32 bits, \<^verbatim>\<open>cpu_to_le16\<close> is the identity, and the
  \<^verbatim>\<open>be16_to_cpup\<close>/\<^verbatim>\<open>be32_to_cpup\<close> helpers assemble a big-endian value from bytes.
\<close>

type_synonym u8 = "8 word"
type_synonym u16 = "16 word"
type_synonym u32 = "32 word"

text \<open>A pointer to bytes that the code only reads: the memory seen from that address.\<close>

type_synonym bytes = "nat \<Rightarrow> u8"

text \<open>
  \<^verbatim>\<open>w << k\<close> on a 32-bit value with a run-time count. For a count from 0 to 31 the
  bits move up by the count and the ones that leave the word are lost. ISO C leaves the
  result undefined for any other count; the compiled shift takes the count modulo 32
  (its five low bits), so a shift by 32 leaves the word as it is, and that is what the
  model does there.
\<close>

definition lsl32 :: "u32 \<Rightarrow> int \<Rightarrow> u32" where
  "lsl32 w k = push_bit (nat (k mod 32)) w"

text \<open>The bytes of a 32-bit word as they lie in memory (least significant first).\<close>

definition byte_of :: "u32 \<Rightarrow> nat \<Rightarrow> u8" where
  "byte_of w i = ucast (drop_bit (8 * i) w)"

definition bytes32 :: "u32 \<Rightarrow> u8 list" where
  "bytes32 w = map (byte_of w) [0..<4]"

section \<open>Command frame encoding (\<^verbatim>\<open>occ_send_cmd\<close>, first half)\<close>

text \<open>\<^verbatim>\<open>cmd1 = (seq << 24) | (type << 16) | length;\<close>\<close>

definition occ_cmd1 :: "u8 \<Rightarrow> u8 \<Rightarrow> u16 \<Rightarrow> u32" where
  "occ_cmd1 seq type len = push_bit 24 (ucast seq) OR push_bit 16 (ucast type) OR ucast len"

text \<open>
  \<^verbatim>\<open>memcpy(&cmd2, data, length)\<close>: \<^verbatim>\<open>cmd2\<close> is an uninitialised local, so the bytes the
  copy does not reach keep whatever the stack held (\<open>junk\<close>). Byte \<open>i\<close> of a
  little-endian word is bits \<open>8 * i\<close> to \<open>8 * i + 7\<close>. Only the four bytes of
  \<^verbatim>\<open>cmd2\<close> are modelled.
\<close>

definition set_byte :: "u32 \<Rightarrow> nat \<Rightarrow> u8 \<Rightarrow> u32" where
  "set_byte w i b = (w AND NOT (push_bit (8 * i) 0xFF)) OR push_bit (8 * i) (ucast b)"

definition memcpy_cmd2 :: "u32 \<Rightarrow> bytes \<Rightarrow> nat \<Rightarrow> u32" where
  "memcpy_cmd2 junk data n = fold (\<lambda>i w. set_byte w i (data i)) [0..<n] junk"

text \<open>\<^verbatim>\<open>cmd2 <<= ((4 - length) * 8);\<close>\<close>

definition occ_cmd2_payload :: "u32 \<Rightarrow> bytes \<Rightarrow> u16 \<Rightarrow> u32" where
  "occ_cmd2_payload junk data len = lsl32 (memcpy_cmd2 junk data (unat len)) ((4 - uint len) * 8)"

text \<open>
  \<^verbatim>\<open>for (i = 0; i < 4; i++) checksum += (w >> (i * 8)) & 0xFF;\<close> with \<^verbatim>\<open>checksum\<close> a
  \<^verbatim>\<open>uint16_t\<close>: the addition wraps at 16 bits.
\<close>

definition add_bytes :: "u32 \<Rightarrow> u16 \<Rightarrow> u16" where
  "add_bytes w c = fold (\<lambda>i c. c + ucast (drop_bit (i * 8) w AND 0xFF)) [0..<4] c"

definition occ_checksum :: "u32 \<Rightarrow> u32 \<Rightarrow> u16" where
  "occ_checksum cmd1 cmd2 = add_bytes cmd2 (add_bytes cmd1 0)"

text \<open>\<^verbatim>\<open>cmd2 |= checksum << ((2 - length) * 8);\<close>\<close>

definition occ_cmd2 :: "u8 \<Rightarrow> u8 \<Rightarrow> u16 \<Rightarrow> u32 \<Rightarrow> bytes \<Rightarrow> u32" where
  "occ_cmd2 seq type len junk data =
     (let cmd2 = occ_cmd2_payload junk data len;
          checksum = occ_checksum (occ_cmd1 seq type len) cmd2
      in cmd2 OR lsl32 (ucast checksum) ((2 - uint len) * 8))"


text \<open>
  The 16-bit field of word2 that holds the checksum: two bytes starting \<open>2 - length\<close>
  bytes above the least significant one.
\<close>

definition checksum_field :: "u16 \<Rightarrow> u32 \<Rightarrow> u16" where
  "checksum_field len w = ucast (drop_bit (nat ((2 - uint len) * 8)) w)"



section \<open>The register access layer\<close>

text \<open>
  The transport (\<^verbatim>\<open>i2c_master_send\<close>, \<^verbatim>\<open>i2c_master_recv\<close>) is an external collaborator.
  It is a parameter: a device with a state of its own that answers every transfer with
  the value the driver stores in \<^verbatim>\<open>uint32_t ret\<close> and, for a read, with the contents
  of the 8-byte \<^verbatim>\<open>buf\<close> after the call.
\<close>

record 's i2c_bus =
  i2c_master_send :: "'s \<Rightarrow> u8 list \<Rightarrow> u32 \<times> 's"
  i2c_master_recv :: "'s \<Rightarrow> nat \<Rightarrow> (u32 \<times> bytes) \<times> 's"

definition OCC_DATA_MAX :: nat where "OCC_DATA_MAX = 4096"
definition I2C_READ_ERROR :: int where "I2C_READ_ERROR = 1"
definition I2C_WRITE_ERROR :: int where "I2C_WRITE_ERROR = 2"
definition ATTN_DATA :: u32 where "ATTN_DATA = 0x0006B035"
definition OCB_ADDRESS :: u32 where "OCB_ADDRESS = 0x0006B070"
definition OCB_DATA :: u32 where "OCB_DATA = 0x0006B075"
definition OCB_STATUS_CONTROL_AND :: u32 where "OCB_STATUS_CONTROL_AND = 0x0006B072"
definition OCB_STATUS_CONTROL_OR :: u32 where "OCB_STATUS_CONTROL_OR = 0x0006B073"
definition OCC_COMMAND_ADDR :: u32 where "OCC_COMMAND_ADDR = 0xFFFF6000"
definition OCC_RESPONSE_ADDR :: u32 where "OCC_RESPONSE_ADDR = 0xFFFF7000"
definition ENOMEM :: int where "ENOMEM = 12"
definition EINVAL :: int where "EINVAL = 22"

definition occ_i2c_read :: "'s i2c_bus \<Rightarrow> nat \<Rightarrow> 's \<Rightarrow> (u32 \<times> bytes) \<times> 's" where
  "occ_i2c_read bus count s = i2c_master_recv bus s count"

definition occ_i2c_write :: "'s i2c_bus \<Rightarrow> u8 list \<Rightarrow> 's \<Rightarrow> u32 \<times> 's" where
  "occ_i2c_write bus buf s = i2c_master_send bus s buf"

text \<open>
  A buffer the code writes through a \<^verbatim>\<open>uint8_t *\<close>: the memory from its first byte on,
  the number of bytes that were allocated for it, and a log of every store that landed
  at or beyond that number (C does not stop such a store; the log makes it visible).
\<close>

record frame =
  mem :: bytes
  capacity :: nat
  overrun :: "nat list"

definition poke :: "frame \<Rightarrow> nat \<Rightarrow> u8 \<Rightarrow> frame" where
  "poke d off v =
     d\<lparr>mem := (mem d)(off := v),
       overrun := (if off < capacity d then overrun d else overrun d @ [off])\<rparr>"

text \<open>
  \<^verbatim>\<open>occ_getscomb\<close>: read an 8-byte value and put it into \<^verbatim>\<open>data[offset]\<close>, byte-reversed.
  On a short transfer the buffer is not touched.
\<close>

definition occ_getscomb ::
    "'s i2c_bus \<Rightarrow> u32 \<Rightarrow> frame \<Rightarrow> nat \<Rightarrow> 's \<Rightarrow> (int \<times> frame) \<times> 's" where
  "occ_getscomb bus address data offset s =
     (let address = push_bit 1 address;
          (ret, s) = occ_i2c_write bus (bytes32 address) s
      in if ret \<noteq> 4 then ((- I2C_WRITE_ERROR, data), s)
         else let ((ret, buf), s) = occ_i2c_read bus 8 s
              in if ret \<noteq> 8 then ((- I2C_READ_ERROR, data), s)
                 else ((0, fold (\<lambda>i d. poke d (offset + i) (buf (7 - i))) [0..<8] data), s))"

text \<open>\<^verbatim>\<open>occ_putscom\<close>: one 12-byte write of address, \<^verbatim>\<open>data1\<close>, \<^verbatim>\<open>data0\<close>.\<close>

definition occ_putscom :: "'s i2c_bus \<Rightarrow> u32 \<Rightarrow> u32 \<Rightarrow> u32 \<Rightarrow> 's \<Rightarrow> int \<times> 's" where
  "occ_putscom bus address data0 data1 s =
     (let address = push_bit 1 address;
          (ret, s) = occ_i2c_write bus (bytes32 address @ bytes32 data1 @ bytes32 data0) s
      in if ret \<noteq> 12 then (I2C_WRITE_ERROR, s) else (0, s))"

section \<open>The command exchange (\<^verbatim>\<open>occ_send_cmd\<close>)\<close>

text \<open>
  The eight register accesses in the order of the source. The value each of them
  returns is dropped, as in the source, where no call's result is read. The function
  returns \<^verbatim>\<open>resp[2]\<close>.
\<close>

definition occ_send_cmd ::
    "'s i2c_bus \<Rightarrow> u8 \<Rightarrow> u8 \<Rightarrow> u16 \<Rightarrow> bytes \<Rightarrow> u32 \<Rightarrow> frame \<Rightarrow> 's \<Rightarrow> (u8 \<times> frame) \<times> 's" where
  "occ_send_cmd bus seq type len data junk resp s =
     (let cmd1 = occ_cmd1 seq type len;
          cmd2 = occ_cmd2 seq type len junk data;
          (_, s) = occ_putscom bus OCB_STATUS_CONTROL_OR 0x08000000 0x00000000 s;
          (_, s) = occ_putscom bus OCB_STATUS_CONTROL_AND 0xFBFFFFFF 0xFFFFFFFF s;
          (_, s) = occ_putscom bus OCB_ADDRESS OCC_COMMAND_ADDR 0x00000000 s;
          (_, s) = occ_putscom bus OCB_ADDRESS OCC_COMMAND_ADDR 0x00000000 s;
          (_, s) = occ_putscom bus OCB_DATA cmd1 cmd2 s;
          (_, s) = occ_putscom bus ATTN_DATA 0x01010000 0x00000000 s;
          (_, s) = occ_putscom bus OCB_ADDRESS OCC_RESPONSE_ADDR 0x00000000 s;
          ((_, resp), s) = occ_getscomb bus OCB_DATA resp 0 s
      in ((mem resp 2, resp), s))"


section \<open>Sensor records, the response state and the kernel heap\<close>

record occ_sensor =
  sensor_id :: u16
  sensor_value :: u16

record power_sensor =
  power_sensor_id :: u16
  update_tag :: u32
  accumulator :: u32
  power_value :: u16

record caps_sensor =
  curr_powercap :: u16
  curr_powerreading :: u16
  norm_powercap :: u16
  max_powercap :: u16
  min_powercap :: u16
  user_powerlimit :: u16

text \<open>A pointer is an address; \<^verbatim>\<open>NULL\<close> is address 0.\<close>

type_synonym addr = nat

record sensor_data_block =
  sensor_type :: "u8 list"
  block_reserved0 :: u8
  sensor_format :: u8
  sensor_length :: u8
  num_of_sensors :: u8
  sensor :: addr
  power_arr :: addr
  caps_arr :: addr

record occ_poll_header =
  status :: u8
  ext_status :: u8
  occs_present :: u8
  config :: u8
  occ_state :: u8
  reserved0 :: u8
  reserved1 :: u8
  error_log_id :: u8
  error_log_addr_start :: u32
  error_log_length :: u16
  reserved2 :: u8
  reserved3 :: u8
  occ_code_level :: "u8 list"
  sensor_eye_catcher :: "u8 list"
  sensor_block_num :: u8
  sensor_data_version :: u8

record occ_response =
  sequence_num :: u8
  cmd_type :: u8
  rtn_status :: u8
  data_length :: u16
  header :: occ_poll_header
  blocks :: addr
  chk_sum :: u16
  temp_block_id :: int
  freq_block_id :: int
  power_block_id :: int
  caps_block_id :: int

datatype sensor_t = Freq | Temp | Power | Caps

text \<open>
  What \<^verbatim>\<open>kcalloc\<close> hands out: an array of one of the three record types, or the block
  list. The heap maps the addresses of live objects to their contents. \<open>allocs\<close> counts
  the requests made so far and \<open>oom\<close> says which requests the allocator refuses; an
  address is never handed out twice, so a stale pointer is never mistaken for a live one.
\<close>

datatype cell =
    SensorArr "occ_sensor list"
  | PowerArr "power_sensor list"
  | CapsArr "caps_sensor list"
  | BlockArr "sensor_data_block list"

record kheap =
  cells :: "addr \<Rightarrow> cell option"
  allocs :: nat
  oom :: "nat \<Rightarrow> bool"

text \<open>
  \<open>None\<close> is a memory fault: a load or store through \<^verbatim>\<open>NULL\<close>, through a pointer
  whose object has been freed, or outside the object, and \<^verbatim>\<open>kfree\<close> of a pointer that
  is not live (a double free). Nothing is said about the machine after a fault.
\<close>

definition load :: "kheap \<Rightarrow> addr \<Rightarrow> cell option" where
  "load h p = (if p = 0 then None else cells h p)"

definition kcalloc :: "cell \<Rightarrow> kheap \<Rightarrow> addr \<times> kheap" where
  "kcalloc zeroed h =
     (let n = allocs h
      in if oom h n then (0, h\<lparr>allocs := Suc n\<rparr>)
         else (Suc n, h\<lparr>cells := (cells h)(Suc n \<mapsto> zeroed), allocs := Suc n\<rparr>))"

definition kfree :: "addr \<Rightarrow> kheap \<Rightarrow> kheap option" where
  "kfree p h =
     (if p = 0 then Some h
      else if cells h p = None then None
      else Some (h\<lparr>cells := (cells h)(p := None)\<rparr>))"

text \<open>\<^verbatim>\<open>p->blocks[i]\<close> as a value, and a store into it.\<close>

definition block_at :: "kheap \<Rightarrow> addr \<Rightarrow> int \<Rightarrow> sensor_data_block option" where
  "block_at h p i =
     (case load h p of
        Some (BlockArr bs) \<Rightarrow> if 0 \<le> i \<and> nat i < length bs then Some (bs ! nat i) else None
      | _ \<Rightarrow> None)"

definition update_block ::
    "kheap \<Rightarrow> addr \<Rightarrow> int \<Rightarrow> (sensor_data_block \<Rightarrow> sensor_data_block) \<Rightarrow> kheap option" where
  "update_block h p i f =
     (case load h p of
        Some (BlockArr bs) \<Rightarrow>
          if 0 \<le> i \<and> nat i < length bs
          then Some (h\<lparr>cells := (cells h)(p \<mapsto> BlockArr (bs[nat i := f (bs ! nat i)]))\<rparr>)
          else None
      | _ \<Rightarrow> None)"

definition zero_sensor :: occ_sensor where
  "zero_sensor = \<lparr>sensor_id = 0, sensor_value = 0\<rparr>"

definition zero_power :: power_sensor where
  "zero_power = \<lparr>power_sensor_id = 0, update_tag = 0, accumulator = 0, power_value = 0\<rparr>"

definition zero_caps :: caps_sensor where
  "zero_caps = \<lparr>curr_powercap = 0, curr_powerreading = 0, norm_powercap = 0,
                max_powercap = 0, min_powercap = 0, user_powerlimit = 0\<rparr>"

definition zero_block :: sensor_data_block where
  "zero_block = \<lparr>sensor_type = [0, 0, 0, 0], block_reserved0 = 0, sensor_format = 0,
                 sensor_length = 0, num_of_sensors = 0, sensor = 0, power_arr = 0, caps_arr = 0\<rparr>"

definition zero_header :: occ_poll_header where
  "zero_header = \<lparr>status = 0, ext_status = 0, occs_present = 0, config = 0, occ_state = 0,
       reserved0 = 0, reserved1 = 0, error_log_id = 0, error_log_addr_start = 0,
       error_log_length = 0, reserved2 = 0, reserved3 = 0, occ_code_level = replicate 16 0,
       sensor_eye_catcher = replicate 6 0, sensor_block_num = 0, sensor_data_version = 0\<rparr>"

text \<open>The response state after \<^verbatim>\<open>memset(p, 0, sizeof(*p))\<close>.\<close>

definition zero_response :: occ_response where
  "zero_response = \<lparr>sequence_num = 0, cmd_type = 0, rtn_status = 0, data_length = 0,
       header = zero_header, blocks = 0, chk_sum = 0, temp_block_id = 0, freq_block_id = 0,
       power_block_id = 0, caps_block_id = 0\<rparr>"

section \<open>Teardown (\<^verbatim>\<open>deinit_occ_resp_buf\<close>)\<close>

text \<open>
  The loop \<^verbatim>\<open>for (i = 0; i < p->header.sensor_block_num; i++)\<close> that frees the three
  array pointers of every block; \<open>k\<close> is the number of iterations left. The first
  test of the function, \<^verbatim>\<open>if (!p) return;\<close>, has no branch here: every caller passes
  the address of a struct member, which is never \<^verbatim>\<open>NULL\<close>.
\<close>

fun free_block_arrays :: "addr \<Rightarrow> nat \<Rightarrow> nat \<Rightarrow> kheap \<Rightarrow> kheap option" where
  "free_block_arrays bp i 0 h = Some h"
| "free_block_arrays bp i (Suc k) h =
     do {
       b \<leftarrow> block_at h bp (int i);
       h \<leftarrow> kfree (sensor b) h;
       b \<leftarrow> block_at h bp (int i);
       h \<leftarrow> kfree (power_arr b) h;
       b \<leftarrow> block_at h bp (int i);
       h \<leftarrow> kfree (caps_arr b) h;
       free_block_arrays bp (Suc i) k h
     }"

definition deinit_occ_resp_buf :: "occ_response \<times> kheap \<Rightarrow> (occ_response \<times> kheap) option" where
  "deinit_occ_resp_buf = (\<lambda>(p, h).
     if blocks p = 0 then Some (p, h)
     else do {
       h \<leftarrow> free_block_arrays (blocks p) 0 (unat (sensor_block_num (header p))) h;
       h \<leftarrow> kfree (blocks p) h;
       Some (zero_response\<lparr>freq_block_id := - 1, temp_block_id := - 1,
                           power_block_id := - 1, caps_block_id := - 1\<rparr>, h)
     })"

section \<open>Storage management (\<^verbatim>\<open>occ_get_sensor_by_type\<close>, \<^verbatim>\<open>occ_renew_sensor\<close>)\<close>

definition occ_get_sensor_by_type :: "occ_response \<Rightarrow> kheap \<Rightarrow> sensor_t \<Rightarrow> addr option" where
  "occ_get_sensor_by_type resp h t =
     (if blocks resp = 0 then Some 0
      else case t of
        Temp \<Rightarrow> if temp_block_id resp = - 1 then Some 0
                else map_option sensor (block_at h (blocks resp) (temp_block_id resp))
      | Freq \<Rightarrow> if freq_block_id resp = - 1 then Some 0
                else map_option sensor (block_at h (blocks resp) (freq_block_id resp))
      | Power \<Rightarrow> if power_block_id resp = - 1 then Some 0
                else map_option power_arr (block_at h (blocks resp) (power_block_id resp))
      | Caps \<Rightarrow> if caps_block_id resp = - 1 then Some 0
                else map_option caps_arr (block_at h (blocks resp) (caps_block_id resp)))"

text \<open>
  One arm of the \<^verbatim>\<open>switch\<close> in \<^verbatim>\<open>occ_renew_sensor\<close>. The four arms differ in the index
  they consult (\<open>old_id\<close>), in the pointer field they assign (\<open>set_ptr\<close>) and in the
  element type of the zeroed array (\<open>zeroed\<close>):
  \<^verbatim>\<open>if (!sensor || num_of_sensors != resp->blocks[old_id].num_of_sensors) {
       kfree(sensor);
       resp->blocks[block].ptr = kcalloc(num_of_sensors, sizeof(...), GFP_KERNEL);
       if (!resp->blocks[block].ptr) { ret = -ENOMEM; goto err; }
   }\<close>
  where \<^verbatim>\<open>err:\<close> tears the whole response down.
\<close>

definition renew_arm ::
    "occ_response \<times> kheap \<Rightarrow> addr \<Rightarrow> u8 \<Rightarrow> int \<Rightarrow> (addr \<Rightarrow> sensor_data_block \<Rightarrow> sensor_data_block)
       \<Rightarrow> cell \<Rightarrow> int \<Rightarrow> (int \<times> occ_response \<times> kheap) option" where
  "renew_arm = (\<lambda>(resp, h) sensor num old_id set_ptr zeroed block.
     do {
       differs \<leftarrow> (if sensor = 0 then Some True
                   else map_option (\<lambda>b. num \<noteq> num_of_sensors b) (block_at h (blocks resp) old_id));
       if differs then
         do {
           h \<leftarrow> kfree sensor h;
           (p, h) \<leftarrow> Some (kcalloc zeroed h);
           h \<leftarrow> update_block h (blocks resp) block (set_ptr p);
           if p = 0 then
             do { (resp, h) \<leftarrow> deinit_occ_resp_buf (resp, h); Some (- ENOMEM, resp, h) }
           else Some (0, resp, h)
         }
       else Some (0, resp, h)
     })"

definition occ_renew_sensor ::
    "occ_response \<times> kheap \<Rightarrow> u8 \<Rightarrow> u8 \<Rightarrow> sensor_t \<Rightarrow> int \<Rightarrow> (int \<times> occ_response \<times> kheap) option" where
  "occ_renew_sensor = (\<lambda>(resp, h) sensor_length num_of_sensors t block.
     do {
       sensor \<leftarrow> occ_get_sensor_by_type resp h t;
       if num_of_sensors = 0 \<or> sensor_length = 0 then
         do { h \<leftarrow> kfree sensor h; Some (- 1, resp, h) }
       else case t of
         Temp \<Rightarrow> renew_arm (resp, h) sensor num_of_sensors (temp_block_id resp)
                   (\<lambda>p b. b\<lparr>sensor := p\<rparr>)
                   (SensorArr (replicate (unat num_of_sensors) zero_sensor)) block
       | Freq \<Rightarrow> renew_arm (resp, h) sensor num_of_sensors (freq_block_id resp)
                   (\<lambda>p b. b\<lparr>sensor := p\<rparr>)
                   (SensorArr (replicate (unat num_of_sensors) zero_sensor)) block
       | Power \<Rightarrow> renew_arm (resp, h) sensor num_of_sensors (power_block_id resp)
                   (\<lambda>p b. b\<lparr>power_arr := p\<rparr>)
                   (PowerArr (replicate (unat num_of_sensors) zero_power)) block
       | Caps \<Rightarrow> renew_arm (resp, h) sensor num_of_sensors (caps_block_id resp)
                   (\<lambda>p b. b\<lparr>caps_arr := p\<rparr>)
                   (CapsArr (replicate (unat num_of_sensors) zero_caps)) block
     })"


section \<open>The response parser (\<^verbatim>\<open>parse_occ_response\<close>)\<close>

definition RESP_DATA_LENGTH :: nat where "RESP_DATA_LENGTH = 3"
definition RESP_HEADER_OFFSET :: nat where "RESP_HEADER_OFFSET = 5"
definition SENSOR_STR_OFFSET :: nat where "SENSOR_STR_OFFSET = 37"
definition SENSOR_BLOCK_NUM_OFFSET :: nat where "SENSOR_BLOCK_NUM_OFFSET = 43"
definition SENSOR_BLOCK_OFFSET :: nat where "SENSOR_BLOCK_OFFSET = 45"

text \<open>\<^verbatim>\<open>be16_to_cpup\<close> and \<^verbatim>\<open>be32_to_cpup\<close> at \<^verbatim>\<open>&data[i]\<close>.\<close>

definition be16_at :: "bytes \<Rightarrow> nat \<Rightarrow> u16" where
  "be16_at data i = push_bit 8 (ucast (data i)) OR ucast (data (i + 1))"

definition be32_at :: "bytes \<Rightarrow> nat \<Rightarrow> u32" where
  "be32_at data i = push_bit 24 (ucast (data i)) OR push_bit 16 (ucast (data (i + 1)))
                    OR push_bit 8 (ucast (data (i + 2))) OR ucast (data (i + 3))"

definition get_occdata_length :: "bytes \<Rightarrow> u16" where
  "get_occdata_length data = be16_at data RESP_DATA_LENGTH"

text \<open>A C string literal as memory: its characters, then NUL.\<close>

definition cstr :: "string \<Rightarrow> bytes" where
  "cstr lit = (\<lambda>i. if i < length lit then of_char (lit ! i) else 0)"

text \<open>
  \<^verbatim>\<open>strncmp(a, b, n) == 0\<close>: the strings agree up to \<open>n\<close> characters or up to a NUL
  they share.
\<close>

fun strncmp_eq :: "bytes \<Rightarrow> bytes \<Rightarrow> nat \<Rightarrow> bool" where
  "strncmp_eq a b 0 = True"
| "strncmp_eq a b (Suc n) = (a 0 = b 0 \<and> (a 0 = 0 \<or> strncmp_eq (a \<circ> Suc) (b \<circ> Suc) n))"

text \<open>\<^verbatim>\<open>strncpy(dst, src, n)\<close>: the \<open>n\<close> bytes of \<open>dst\<close>, NUL-padded after the end of \<open>src\<close>.\<close>

fun strncpy :: "bytes \<Rightarrow> nat \<Rightarrow> u8 list" where
  "strncpy src 0 = []"
| "strncpy src (Suc n) =
     (if src 0 = 0 then replicate (Suc n) 0 else src 0 # strncpy (src \<circ> Suc) n)"

text \<open>
  \<^verbatim>\<open>memcpy(&resp->header, &data[RESP_HEADER_OFFSET], sizeof(resp->header))\<close> followed by
  the two byte-order conversions. The struct has no padding: eight single bytes, the
  32-bit address at offset 8, the 16-bit length at 12, two bytes, 16 bytes of code level
  at 16, the eye catcher at 32, the block count at 38 and the version at 39.
\<close>

definition header_of :: "bytes \<Rightarrow> occ_poll_header" where
  "header_of data =
     (let at = (\<lambda>i. data (RESP_HEADER_OFFSET + i))
      in \<lparr>status = at 0, ext_status = at 1, occs_present = at 2, config = at 3,
          occ_state = at 4, reserved0 = at 5, reserved1 = at 6, error_log_id = at 7,
          error_log_addr_start = be32_at at 8, error_log_length = be16_at at 12,
          reserved2 = at 14, reserved3 = at 15, occ_code_level = map at [16..<32],
          sensor_eye_catcher = map at [32..<38], sensor_block_num = at 38,
          sensor_data_version = at 39\<rparr>)"

text \<open>Stores through \<^verbatim>\<open>&resp->blocks[b].sensor[s]\<close> and its two siblings.\<close>

definition store_occ_sensor ::
    "kheap \<Rightarrow> addr \<Rightarrow> nat \<Rightarrow> (occ_sensor \<Rightarrow> occ_sensor) \<Rightarrow> kheap option" where
  "store_occ_sensor h p s f =
     (case load h p of
        Some (SensorArr xs) \<Rightarrow>
          if s < length xs then Some (h\<lparr>cells := (cells h)(p \<mapsto> SensorArr (xs[s := f (xs ! s)]))\<rparr>)
          else None
      | _ \<Rightarrow> None)"

definition store_power_sensor ::
    "kheap \<Rightarrow> addr \<Rightarrow> nat \<Rightarrow> (power_sensor \<Rightarrow> power_sensor) \<Rightarrow> kheap option" where
  "store_power_sensor h p s f =
     (case load h p of
        Some (PowerArr xs) \<Rightarrow>
          if s < length xs then Some (h\<lparr>cells := (cells h)(p \<mapsto> PowerArr (xs[s := f (xs ! s)]))\<rparr>)
          else None
      | _ \<Rightarrow> None)"

definition store_caps_sensor ::
    "kheap \<Rightarrow> addr \<Rightarrow> nat \<Rightarrow> (caps_sensor \<Rightarrow> caps_sensor) \<Rightarrow> kheap option" where
  "store_caps_sensor h p s f =
     (case load h p of
        Some (CapsArr xs) \<Rightarrow>
          if s < length xs then Some (h\<lparr>cells := (cells h)(p \<mapsto> CapsArr (xs[s := f (xs ! s)]))\<rparr>)
          else None
      | _ \<Rightarrow> None)"

text \<open>
  The three record loops \<^verbatim>\<open>for (s = 0; s < num_of_sensors; s++)\<close> (the FREQ and TEMP
  loops are the same code); \<open>k\<close> is the number of records left, \<open>bp\<close> is
  \<^verbatim>\<open>resp->blocks\<close>. Each returns the cursor and the heap.
\<close>

fun decode_occ_sensors ::
    "bytes \<Rightarrow> addr \<Rightarrow> nat \<Rightarrow> u8 \<Rightarrow> nat \<Rightarrow> nat \<Rightarrow> nat \<Rightarrow> kheap \<Rightarrow> (nat \<times> kheap) option" where
  "decode_occ_sensors data bp b len 0 s dnum h = Some (dnum, h)"
| "decode_occ_sensors data bp b len (Suc k) s dnum h =
     do {
       blk \<leftarrow> block_at h bp (int b);
       h \<leftarrow> store_occ_sensor h (sensor blk) s
              (\<lambda>x. x\<lparr>sensor_id := be16_at data dnum, sensor_value := be16_at data (dnum + 2)\<rparr>);
       decode_occ_sensors data bp b len k (Suc s) (dnum + unat len) h
     }"

fun decode_power_sensors ::
    "bytes \<Rightarrow> addr \<Rightarrow> nat \<Rightarrow> u8 \<Rightarrow> nat \<Rightarrow> nat \<Rightarrow> nat \<Rightarrow> kheap \<Rightarrow> (nat \<times> kheap) option" where
  "decode_power_sensors data bp b len 0 s dnum h = Some (dnum, h)"
| "decode_power_sensors data bp b len (Suc k) s dnum h =
     do {
       blk \<leftarrow> block_at h bp (int b);
       h \<leftarrow> store_power_sensor h (power_arr blk) s
              (\<lambda>x. x\<lparr>power_sensor_id := be16_at data dnum, update_tag := be32_at data (dnum + 2),
                     accumulator := be32_at data (dnum + 6), power_value := be16_at data (dnum + 10)\<rparr>);
       decode_power_sensors data bp b len k (Suc s) (dnum + unat len) h
     }"

fun decode_caps_sensors ::
    "bytes \<Rightarrow> addr \<Rightarrow> nat \<Rightarrow> u8 \<Rightarrow> nat \<Rightarrow> nat \<Rightarrow> nat \<Rightarrow> kheap \<Rightarrow> (nat \<times> kheap) option" where
  "decode_caps_sensors data bp b len 0 s dnum h = Some (dnum, h)"
| "decode_caps_sensors data bp b len (Suc k) s dnum h =
     do {
       blk \<leftarrow> block_at h bp (int b);
       h \<leftarrow> store_caps_sensor h (caps_arr blk) s
              (\<lambda>x. x\<lparr>curr_powercap := be16_at data dnum,
                     curr_powerreading := be16_at data (dnum + 2),
                     norm_powercap := be16_at data (dnum + 4),
                     max_powercap := be16_at data (dnum + 6),
                     min_powercap := be16_at data (dnum + 8),
                     user_powerlimit := be16_at data (dnum + 10)\<rparr>);
       decode_caps_sensors data bp b len k (Suc s) (dnum + unat len) h
     }"

text \<open>
  The errors of the parser and of the refresh, and the value the C code returns for
  each. The two parse failures share the value \<open>-1\<close>; the names are the spec's.
\<close>

datatype occ_error =
    MalformedResponse | UnsupportedSensorType | OutOfMemory | ProtocolRejected | BadReplyLength

fun errno :: "occ_error \<Rightarrow> int" where
  "errno MalformedResponse = - 1"
| "errno UnsupportedSensorType = - 1"
| "errno OutOfMemory = - ENOMEM"
| "errno ProtocolRejected = - EINVAL"
| "errno BadReplyLength = - EINVAL"

text \<open>
  One iteration of \<^verbatim>\<open>for (b = 0; b < sensor_block_num; b++)\<close>. It either goes on to the
  next block with a new cursor (also through \<^verbatim>\<open>continue\<close>, which skips the record loop
  and the four stores at the end of the body), or leaves the parse through \<^verbatim>\<open>err:\<close>.
\<close>

datatype flow = Continue nat occ_response kheap | Return occ_error occ_response kheap

definition parse_block :: "bytes \<Rightarrow> nat \<Rightarrow> nat \<Rightarrow> occ_response \<times> kheap \<Rightarrow> flow option" where
  "parse_block data b dnum = (\<lambda>(resp, h).
     (let sensor_type' = strncpy (\<lambda>i. data (dnum + i)) 4;
          sensor_format' = data (dnum + 5);
          sensor_length' = data (dnum + 6);
          num_of_sensors' = data (dnum + 7);
          dnum = dnum + 8;
          keep = (\<lambda>blk. blk\<lparr>sensor_type := strncpy ((!) sensor_type') 4,
                              sensor_format := sensor_format',
                              sensor_length := sensor_length',
                              num_of_sensors := num_of_sensors'\<rparr>)
      in
      if strncmp_eq ((!) sensor_type') (cstr ''FREQ'') 4 then
        do {
          (ret, resp, h) \<leftarrow> occ_renew_sensor (resp, h) sensor_length' num_of_sensors' Freq (int b);
          if ret \<noteq> 0 then Some (Continue dnum resp h)
          else do {
            let resp = resp\<lparr>freq_block_id := int b\<rparr>;
            (dnum, h) \<leftarrow> decode_occ_sensors data (blocks resp) b sensor_length'
                            (unat num_of_sensors') 0 dnum h;
            h \<leftarrow> update_block h (blocks resp) (int b) keep;
            Some (Continue dnum resp h)
          }
        }
      else if strncmp_eq ((!) sensor_type') (cstr ''TEMP'') 4 then
        do {
          (ret, resp, h) \<leftarrow> occ_renew_sensor (resp, h) sensor_length' num_of_sensors' Temp (int b);
          if ret \<noteq> 0 then Some (Continue dnum resp h)
          else do {
            let resp = resp\<lparr>temp_block_id := int b\<rparr>;
            (dnum, h) \<leftarrow> decode_occ_sensors data (blocks resp) b sensor_length'
                            (unat num_of_sensors') 0 dnum h;
            h \<leftarrow> update_block h (blocks resp) (int b) keep;
            Some (Continue dnum resp h)
          }
        }
      else if strncmp_eq ((!) sensor_type') (cstr ''POWR'') 4 then
        do {
          (ret, resp, h) \<leftarrow> occ_renew_sensor (resp, h) sensor_length' num_of_sensors' Power (int b);
          if ret \<noteq> 0 then Some (Continue dnum resp h)
          else do {
            let resp = resp\<lparr>power_block_id := int b\<rparr>;
            (dnum, h) \<leftarrow> decode_power_sensors data (blocks resp) b sensor_length'
                            (unat num_of_sensors') 0 dnum h;
            h \<leftarrow> update_block h (blocks resp) (int b) keep;
            Some (Continue dnum resp h)
          }
        }
      else if strncmp_eq ((!) sensor_type') (cstr ''CAPS'') 4 then
        do {
          (ret, resp, h) \<leftarrow> occ_renew_sensor (resp, h) sensor_length' num_of_sensors' Caps (int b);
          if ret \<noteq> 0 then Some (Continue dnum resp h)
          else do {
            let resp = resp\<lparr>caps_block_id := int b\<rparr>;
            (dnum, h) \<leftarrow> decode_caps_sensors data (blocks resp) b sensor_length'
                            (unat num_of_sensors') 0 dnum h;
            h \<leftarrow> update_block h (blocks resp) (int b) keep;
            Some (Continue dnum resp h)
          }
        }
      else
        do {
          (resp, h) \<leftarrow> deinit_occ_resp_buf (resp, h);
          Some (Return UnsupportedSensorType resp h)
        }))"

text \<open>The block loop; \<open>k\<close> is the number of blocks left.\<close>

fun parse_blocks ::
    "bytes \<Rightarrow> nat \<Rightarrow> nat \<Rightarrow> nat \<Rightarrow> occ_response \<times> kheap
       \<Rightarrow> ((occ_error + unit) \<times> occ_response \<times> kheap) option" where
  "parse_blocks data 0 b dnum (resp, h) = Some (Inr (), resp, h)"
| "parse_blocks data (Suc k) b dnum (resp, h) =
     do {
       f \<leftarrow> parse_block data b dnum (resp, h);
       case f of
         Continue dnum resp h \<Rightarrow> parse_blocks data k (Suc b) dnum (resp, h)
       | Return e resp h \<Rightarrow> Some (Inl e, resp, h)
     }"

definition parse_occ_response ::
    "bytes \<Rightarrow> occ_response \<times> kheap \<Rightarrow> ((occ_error + unit) \<times> occ_response \<times> kheap) option" where
  "parse_occ_response data = (\<lambda>(resp, h).
     if \<not> strncmp_eq (\<lambda>i. data (SENSOR_STR_OFFSET + i)) (cstr ''SENSOR'') 6 then
       do { (resp, h) \<leftarrow> deinit_occ_resp_buf (resp, h); Some (Inl MalformedResponse, resp, h) }
     else
       let sensor_block_num' = data SENSOR_BLOCK_NUM_OFFSET
       in if sensor_block_num' = 0 then
            do { (resp, h) \<leftarrow> deinit_occ_resp_buf (resp, h); Some (Inl MalformedResponse, resp, h) }
          else if sensor_block_num' \<noteq> sensor_block_num (header resp) then
            do {
              (resp, h) \<leftarrow> deinit_occ_resp_buf (resp, h);
              (p, h) \<leftarrow> Some (kcalloc (BlockArr (replicate (unat sensor_block_num') zero_block)) h);
              let resp = resp\<lparr>blocks := p\<rparr>;
              if blocks resp = 0 then Some (Inl OutOfMemory, resp, h)
              else parse_blocks data (unat sensor_block_num') 0 SENSOR_BLOCK_OFFSET
                     (resp\<lparr>header := header_of data\<rparr>, h)
            }
          else parse_blocks data (unat sensor_block_num') 0 SENSOR_BLOCK_OFFSET
                 (resp\<lparr>header := header_of data\<rparr>, h))"

section \<open>The refresh (\<^verbatim>\<open>occ_get_all\<close>, \<^verbatim>\<open>occ_update_device\<close>)\<close>

text \<open>
  \<^verbatim>\<open>for (i = 8; i < num_bytes + 8; i = i + 8) occ_getscomb(client, OCB_DATA, occ_data, i);\<close>
  with \<open>n\<close> for \<^verbatim>\<open>num_bytes + 8\<close>. The result of each read is dropped.
\<close>

function read_remaining :: "'s i2c_bus \<Rightarrow> nat \<Rightarrow> nat \<Rightarrow> frame \<Rightarrow> 's \<Rightarrow> frame \<times> 's" where
  "read_remaining bus i n data s =
     (if i < n
      then let ((_, data), s) = occ_getscomb bus OCB_DATA data i s
           in read_remaining bus (i + 8) n data s
      else (data, s))"
  by pat_completeness auto
termination
  by (relation "measure (\<lambda>(bus, i, n, data, s). n - i)") auto

declare read_remaining.simps [simp del]

text \<open>
  \<^verbatim>\<open>devm_kzalloc(&client->dev, OCC_DATA_MAX, GFP_KERNEL)\<close>: one more request to the
  allocator. The buffer is private to \<^verbatim>\<open>occ_get_all\<close> and is a value of the model, not a
  heap cell; \<open>beyond\<close> is what the memory after its 4096 zeroed bytes holds.
\<close>

definition devm_kzalloc :: "kheap \<Rightarrow> bool \<times> kheap" where
  "devm_kzalloc h = (\<not> oom h (allocs h), h\<lparr>allocs := Suc (allocs h)\<rparr>)"

definition fresh_frame :: "bytes \<Rightarrow> frame" where
  "fresh_frame beyond =
     \<lparr>mem = (\<lambda>i. if i < OCC_DATA_MAX then 0 else beyond i), capacity = OCC_DATA_MAX, overrun = []\<rparr>"

text \<open>
  \<^verbatim>\<open>occ_get_all\<close>. The source does not test the result of \<^verbatim>\<open>devm_kzalloc\<close>: on failure
  \<^verbatim>\<open>occ_send_cmd\<close> goes through the \<^verbatim>\<open>NULL\<close> buffer, a fault. A store beyond the buffer
  corrupts the heap, also a fault.
\<close>

definition occ_get_all ::
    "'s i2c_bus \<Rightarrow> u32 \<Rightarrow> bytes \<Rightarrow> occ_response \<times> kheap \<times> 's
       \<Rightarrow> ((occ_error + unit) \<times> occ_response \<times> kheap \<times> 's) option" where
  "occ_get_all bus junk beyond = (\<lambda>(occ_resp, h, s).
     let poll_cmd_data = (\<lambda>i. 0x10);
         (ok, h) = devm_kzalloc h
     in if \<not> ok then None
        else
          let occ_data = fresh_frame beyond;
              ((ret, occ_data), s) = occ_send_cmd bus 0 0 1 poll_cmd_data junk occ_data s
          in if ret \<noteq> 0 then Some (Inl ProtocolRejected, occ_resp, h, s)
             else
               let num_bytes = get_occdata_length (mem occ_data)
               in if unat num_bytes > OCC_DATA_MAX then Some (Inl BadReplyLength, occ_resp, h, s)
                  else if unat num_bytes \<le> 0 then Some (Inl BadReplyLength, occ_resp, h, s)
                  else
                    let (occ_data, s) = read_remaining bus 8 (unat num_bytes + 8) occ_data s
                    in if overrun occ_data \<noteq> [] then None
                       else do {
                         (ret, occ_resp, h) \<leftarrow> parse_occ_response (mem occ_data) (occ_resp, h);
                         Some (ret, occ_resp, h, s)
                       })"

text \<open>
  Modelled from the spec: the macro \<^verbatim>\<open>time_after\<close> of \<^verbatim>\<open>linux/jiffies.h\<close> is not part of
  the source file. The spec says a refresh is due when the "elapsed time since
  \<^verbatim>\<open>last_refresh_time\<close> exceeds \<^verbatim>\<open>min_refresh_interval\<close>"; on the wrapping tick counter
  that is the sign of the difference.
\<close>

definition time_after :: "u32 \<Rightarrow> u32 \<Rightarrow> bool" where
  "time_after a b = (sint (b - a) < 0)"

text \<open>
  The fields of \<^verbatim>\<open>struct occ_drv_data\<close> that the refresh uses. The mutex is taken on
  entry and released on exit: the body runs alone, which is how the model runs it.
\<close>

record occ_drv_data =
  valid :: bool
  last_updated :: u32
  update_interval :: u32
  occ_online :: u32
  user_powercap :: u16
  occ_resp :: occ_response

text \<open>
  \<^verbatim>\<open>occ_update_device\<close>; \<open>jiffies1\<close> is the tick counter when the condition is evaluated
  and \<open>jiffies2\<close> when \<^verbatim>\<open>last_updated\<close> is stamped, after the attempt.
\<close>

definition occ_update_device ::
    "'s i2c_bus \<Rightarrow> u32 \<Rightarrow> bytes \<Rightarrow> u32 \<Rightarrow> u32 \<Rightarrow> occ_drv_data \<times> kheap \<times> 's
       \<Rightarrow> ((occ_error + unit) \<times> occ_drv_data \<times> kheap \<times> 's) option" where
  "occ_update_device bus junk beyond jiffies1 jiffies2 = (\<lambda>(data, h, s).
     if time_after jiffies1 (last_updated data + update_interval data) \<or> \<not> valid data then
       do {
         let data = data\<lparr>valid := True\<rparr>;
         (ret, resp, h, s) \<leftarrow> occ_get_all bus junk beyond (occ_resp data, h, s);
         let data = data\<lparr>occ_resp := resp\<rparr>;
         let data = (if isl ret then data\<lparr>valid := False\<rparr> else data);
         let data = data\<lparr>last_updated := jiffies2\<rparr>;
         Some (ret, data, h, s)
       }
     else Some (Inr (), data, h, s))"

section \<open>Notions used in the statements\<close>

text \<open>
  The response state that a completed teardown leaves: everything zero, the four block
  indices at the "absent" value \<open>-1\<close>.
\<close>

definition reset_response :: occ_response where
  "reset_response = zero_response\<lparr>freq_block_id := - 1, temp_block_id := - 1,
                                   power_block_id := - 1, caps_block_id := - 1\<rparr>"

text \<open>\<open>shrinks h h'\<close>: from \<open>h\<close> to \<open>h'\<close> objects were only freed.\<close>

definition shrinks :: "kheap \<Rightarrow> kheap \<Rightarrow> bool" where
  "shrinks h h' \<longleftrightarrow>
     (\<forall>a. cells h' a = None \<or> cells h' a = cells h a) \<and> allocs h' = allocs h \<and> oom h' = oom h"

text \<open>The array pointers of a block that are not \<^verbatim>\<open>NULL\<close>.\<close>

definition array_ptrs :: "sensor_data_block \<Rightarrow> addr set" where
  "array_ptrs b = {sensor b, power_arr b, caps_arr b} - {0}"

text \<open>
  The block list as the reply lays it out: the four tag bytes of the block at a cursor,
  the sensor type a tag stands for, and the cursor of the block after it (the 8-byte
  prologue, then record count times record length bytes).
\<close>

definition tag_at :: "bytes \<Rightarrow> nat \<Rightarrow> u8 list" where
  "tag_at data dnum = map (\<lambda>i. data (dnum + i)) [0..<4]"

definition tag_type :: "u8 list \<Rightarrow> sensor_t option" where
  "tag_type tag =
     (if tag = map of_char ''FREQ'' then Some Freq
      else if tag = map of_char ''TEMP'' then Some Temp
      else if tag = map of_char ''POWR'' then Some Power
      else if tag = map of_char ''CAPS'' then Some Caps
      else None)"

definition next_block :: "bytes \<Rightarrow> nat \<Rightarrow> nat" where
  "next_block data dnum = dnum + 8 + unat (data (dnum + 7)) * unat (data (dnum + 6))"

fun block_from :: "bytes \<Rightarrow> nat \<Rightarrow> nat \<Rightarrow> nat" where
  "block_from data dnum 0 = dnum"
| "block_from data dnum (Suc k) = block_from data (next_block data dnum) k"

text \<open>The block index and the array pointer that belong to a sensor type.\<close>

definition block_id_of :: "sensor_t \<Rightarrow> occ_response \<Rightarrow> int" where
  "block_id_of t resp =
     (case t of Freq \<Rightarrow> freq_block_id resp | Temp \<Rightarrow> temp_block_id resp
      | Power \<Rightarrow> power_block_id resp | Caps \<Rightarrow> caps_block_id resp)"

definition array_of :: "sensor_t \<Rightarrow> sensor_data_block \<Rightarrow> addr" where
  "array_of t blk =
     (case t of Freq \<Rightarrow> sensor blk | Temp \<Rightarrow> sensor blk
      | Power \<Rightarrow> power_arr blk | Caps \<Rightarrow> caps_arr blk)"

text \<open>The loop body of the parser with the four arms written once, by sensor type.\<close>

definition set_block_id :: "sensor_t \<Rightarrow> int \<Rightarrow> occ_response \<Rightarrow> occ_response" where
  "set_block_id t b resp =
     (case t of Freq \<Rightarrow> resp\<lparr>freq_block_id := b\<rparr> | Temp \<Rightarrow> resp\<lparr>temp_block_id := b\<rparr>
      | Power \<Rightarrow> resp\<lparr>power_block_id := b\<rparr> | Caps \<Rightarrow> resp\<lparr>caps_block_id := b\<rparr>)"

definition decode_records ::
    "sensor_t \<Rightarrow> bytes \<Rightarrow> addr \<Rightarrow> nat \<Rightarrow> u8 \<Rightarrow> nat \<Rightarrow> nat \<Rightarrow> nat \<Rightarrow> kheap \<Rightarrow> (nat \<times> kheap) option" where
  "decode_records t =
     (case t of Freq \<Rightarrow> decode_occ_sensors | Temp \<Rightarrow> decode_occ_sensors
      | Power \<Rightarrow> decode_power_sensors | Caps \<Rightarrow> decode_caps_sensors)"

definition keep_prologue :: "bytes \<Rightarrow> nat \<Rightarrow> sensor_data_block \<Rightarrow> sensor_data_block" where
  "keep_prologue data dnum blk =
     blk\<lparr>sensor_type := strncpy ((!) (strncpy (\<lambda>i. data (dnum + i)) 4)) 4,
         sensor_format := data (dnum + 5),
         sensor_length := data (dnum + 6),
         num_of_sensors := data (dnum + 7)\<rparr>"

text \<open>
  \<open>owned h0 bp b h\<close>: while the block list at \<open>bp\<close> is live in \<open>h\<close>, every live object
  of \<open>h\<close> was live in \<open>h0\<close>, or is the block list, or is an array that one of the first
  \<open>b\<close> blocks points to.
\<close>

definition owned :: "kheap \<Rightarrow> addr \<Rightarrow> nat \<Rightarrow> kheap \<Rightarrow> bool" where
  "owned h0 bp b h \<longleftrightarrow>
     (\<forall>bs a. load h bp = Some (BlockArr bs) \<and> cells h a \<noteq> None \<longrightarrow>
        cells h0 a \<noteq> None \<or> a = bp
        \<or> (\<exists>i. i < b \<and> i < length bs \<and> a \<in> array_ptrs (bs ! i)))"

text \<open>
  \<open>array_edit h h'\<close>: from \<open>h\<close> to \<open>h'\<close> only the contents of record arrays changed;
  the same objects are live and every block list is as it was.
\<close>

definition array_edit :: "kheap \<Rightarrow> kheap \<Rightarrow> bool" where
  "array_edit h h' \<longleftrightarrow>
     oom h' = oom h \<and> allocs h' = allocs h
     \<and> (\<forall>a. cells h' a = None \<longleftrightarrow> cells h a = None)
     \<and> (\<forall>a bs. cells h' a = Some (BlockArr bs) \<longleftrightarrow> cells h a = Some (BlockArr bs))"

section \<open>Concrete machines for the examples\<close>

definition heap0 :: kheap where
  "heap0 = \<lparr>cells = (\<lambda>a. None), allocs = 0, oom = (\<lambda>n. False)\<rparr>"

text \<open>A state without a block list whose indices are not \<open>-1\<close>.\<close>

definition resp_no_blocks :: occ_response where
  "resp_no_blocks = zero_response\<lparr>temp_block_id := 3\<rparr>"

text \<open>A state with a list of one block that owns one array of one record.\<close>

definition resp_one_block :: occ_response where
  "resp_one_block = zero_response\<lparr>header := zero_header\<lparr>sensor_block_num := 1\<rparr>, blocks := 1,
                                      freq_block_id := 0\<rparr>"

definition heap_one_block :: kheap where
  "heap_one_block =
     \<lparr>cells = (\<lambda>a. if a = 1 then Some (BlockArr [zero_block\<lparr>sensor := 2, num_of_sensors := 1\<rparr>])
                    else if a = 2 then Some (SensorArr [zero_sensor]) else None),
      allocs = 2, oom = (\<lambda>n. False)\<rparr>"

text \<open>Memory that holds zeros, and the one payload byte of the poll command.\<close>

definition no_bytes :: bytes where
  "no_bytes = (\<lambda>i. 0)"

definition poll_byte :: bytes where
  "poll_byte = (\<lambda>i. 0x10)"

text \<open>
  A bus on which every transfer moves no byte at all; its state counts the transfers
  that were tried.
\<close>

definition dead_bus :: "nat i2c_bus" where
  "dead_bus = \<lparr>i2c_master_send = (\<lambda>s buf. (0, Suc s)),
               i2c_master_recv = (\<lambda>s count. ((0, no_bytes), Suc s))\<rparr>"

text \<open>
  A bus on which every transfer is complete and every 8-byte read returns the same
  bytes. The driver reverses them: \<open>buf 5\<close> becomes the status byte \<^verbatim>\<open>data[2]\<close>, and
  \<open>buf 4\<close>, \<open>buf 3\<close> become the length field \<^verbatim>\<open>data[3]\<close>, \<^verbatim>\<open>data[4]\<close>.
\<close>

definition echo_bus :: "bytes \<Rightarrow> nat i2c_bus" where
  "echo_bus reply = \<lparr>i2c_master_send = (\<lambda>s buf. (of_nat (length buf), Suc s)),
                     i2c_master_recv = (\<lambda>s count. ((of_nat count, reply), Suc s))\<rparr>"

text \<open>A reply with status 0 that declares 4096 bytes, and a reply with status \<open>0xE1\<close>.\<close>

definition reply_4096 :: bytes where
  "reply_4096 = (\<lambda>i. if i = 4 then 0x10 else 0)"

definition reply_rejected :: bytes where
  "reply_rejected = (\<lambda>i. if i = 5 then 0xE1 else 0)"

text \<open>A driver state with a valid cache, last refreshed at tick 0, interval 1000 ticks.\<close>

definition drv0 :: occ_drv_data where
  "drv0 = \<lparr>valid = True, last_updated = 0, update_interval = 1000, occ_online = 1,
           user_powercap = 0, occ_resp = reset_response\<rparr>"

text \<open>
  Poll replies for the parser: 37 bytes, the signature, the block count, the version
  byte, and the blocks; what lies after the listed bytes is zero.
\<close>

definition bytes_of :: "u8 list \<Rightarrow> bytes" where
  "bytes_of xs = (\<lambda>i. if i < length xs then xs ! i else 0)"

definition reply_with :: "u8 \<Rightarrow> u8 list \<Rightarrow> bytes" where
  "reply_with count blks = bytes_of (replicate 37 0 @ map of_char ''SENSOR'' @ [count, 1] @ blks)"

text \<open>
  Blocks: a prologue of tag, reserved byte, format, record length and record count,
  then the records.
\<close>

definition freq_block_1 :: "u8 list" where
  "freq_block_1 = map of_char ''FREQ'' @ [0, 1, 4, 1] @ [0x00, 0x01, 0x0B, 0xB8]"

definition freq_block_0 :: "u8 list" where
  "freq_block_0 = map of_char ''FREQ'' @ [0, 1, 4, 0]"

definition powr_block_1 :: "u8 list" where
  "powr_block_1 = map of_char ''POWR'' @ [0, 1, 12, 1]
                    @ [0x00, 0x02, 0, 0, 0, 1, 0, 0, 0, 5, 0x00, 0x64]"

definition xyzz_block :: "u8 list" where
  "xyzz_block = map of_char ''XYZZ'' @ [0, 1, 4, 1] @ [0, 0, 0, 0]"

text \<open>A reply of two blocks: one FREQ record, then a block with the unknown tag "XYZZ".\<close>

definition reply_freq_xyzz :: bytes where
  "reply_freq_xyzz = reply_with 2 (freq_block_1 @ xyzz_block)"

text \<open>
  A reply of three blocks: a FREQ block of one record, a second FREQ block of two
  records, then the block with the unknown tag. The blocks start at bytes 45, 57 and 73.
\<close>

definition freq_block_2 :: "u8 list" where
  "freq_block_2 = map of_char ''FREQ'' @ [0, 1, 4, 2]
                    @ [0x00, 0x01, 0x0B, 0xB8, 0x00, 0x02, 0x0B, 0xB8]"

definition reply_freq_freq_xyzz :: bytes where
  "reply_freq_freq_xyzz = reply_with 3 (freq_block_1 @ freq_block_2 @ xyzz_block)"

text \<open>
  A reply of two blocks, and an allocator that refuses its second request. The first
  block is a FREQ block with one record of 8 bytes, whose bytes read as the prologue of
  an empty CAPS block; the second block, at byte 61, has the unknown tag.
\<close>

definition freq_block_wide :: "u8 list" where
  "freq_block_wide = map of_char ''FREQ'' @ [0, 1, 8, 1] @ map of_char ''CAPS'' @ [0, 1, 0, 0]"

definition reply_wide_xyzz :: bytes where
  "reply_wide_xyzz = reply_with 2 (freq_block_wide @ xyzz_block)"

definition heap_refusing_second :: kheap where
  "heap_refusing_second = \<lparr>cells = (\<lambda>a. None), allocs = 0, oom = (\<lambda>n. n = 1)\<rparr>"

section \<open>Properties of the command frame\<close>

lemma ff_mask: "(0xFF::u32) = mask 8"
  by (simp add: mask_eq_exp_minus_1)

lemma ffff_mask: "(0xFFFF::u32) = mask 16"
  by (simp add: mask_eq_exp_minus_1)

lemma bit8: "bit (c::u8) m \<Longrightarrow> m < 8"
  using bit_imp_le_length[of c m] by simp

lemma bit16: "bit (c::u16) m \<Longrightarrow> m < 16"
  using bit_imp_le_length[of c m] by simp





text \<open>
  For a count from 0 to 31 the shift is the one that C defines. With a payload length of
  1 or 2 both counts of the encoder are in that range, and 16 bits apart; with a length
  of 0 the count of the checksum is, the count of the payload (32) is not.
\<close>

lemma lsl32_in_range: "0 \<le> k \<Longrightarrow> k < 32 \<Longrightarrow> lsl32 w k = push_bit (nat k) w"
  by (simp add: lsl32_def)

lemma count_arith:
  fixes u :: int
  assumes "0 \<le> u" "u \<le> 2"
  shows "0 \<le> (2 - u) * 8" "(2 - u) * 8 < 32"
    "1 \<le> u \<Longrightarrow> 0 \<le> (4 - u) * 8" "1 \<le> u \<Longrightarrow> (4 - u) * 8 < 32"
    "nat ((4 - u) * 8) = nat ((2 - u) * 8) + 16"
  using assms by (simp_all add: algebra_simps nat_add_distrib nat_diff_distrib)

lemma field_shift_le: "nat ((2 - uint (len::u16)) * 8) \<le> 16"
proof -
  have "nat ((2 - u) * 8) \<le> 16" if "0 \<le> u" for u :: int
    using that by (simp add: algebra_simps)
  from this[OF uint_ge_0] show ?thesis .
qed

lemma field_shift_nat: "nat ((2 - uint (len::u16)) * 8) = 8 * (2 - unat len)"
proof -
  have "nat ((2 - int n) * 8) = 8 * (2 - n)" for n :: nat
    by (simp add: nat_diff_distrib nat_mult_distrib algebra_simps)
  then show ?thesis by (simp only: uint_nat)
qed

lemma lsl_payload:
  assumes "1 \<le> (len::u16)" "len \<le> 2"
  shows "lsl32 w ((4 - uint len) * 8) = push_bit (nat ((2 - uint len) * 8) + 16) w"
proof -
  have u: "uint len \<le> 2" "1 \<le> uint len" using assms by (simp_all add: word_le_def)
  note c = count_arith[OF uint_ge_0 u(1)]
  show ?thesis
    using lsl32_in_range[OF c(3)[OF u(2)] c(4)[OF u(2)], of w] by (simp only: c(5))
qed

lemma lsl_checksum:
  assumes "(len::u16) \<le> 2"
  shows "lsl32 w ((2 - uint len) * 8) = push_bit (nat ((2 - uint len) * 8)) w"
proof -
  have "uint len \<le> 2" using assms by (simp add: word_le_def)
  note c = count_arith[OF uint_ge_0 this]
  show ?thesis by (rule lsl32_in_range[OF c(1) c(2)])
qed

lemma clear_generic:
  fixes p :: u32
  shows "push_bit (s + 16) p AND push_bit s (mask 16) = 0"
  by (auto intro!: bit_word_eqI simp add: bit_simps)


lemma field_generic:
  fixes p :: u32 and ck :: u16
  assumes "s \<le> 16"
  shows "ucast (drop_bit s (push_bit (s + 16) p OR push_bit s (ucast ck))) = ck"
  using assms by (auto intro!: bit_word_eqI simp add: bit_simps dest: bit16)

lemma field_clear:
  "1 \<le> len \<Longrightarrow> len \<le> 2 \<Longrightarrow>
     occ_cmd2_payload junk data len AND push_bit (nat ((2 - uint len) * 8)) 0xFFFF = 0"
  unfolding ffff_mask occ_cmd2_payload_def
  by (simp only: lsl_payload clear_generic)

lemma field_holds_checksum:
  "1 \<le> len \<Longrightarrow> len \<le> 2 \<Longrightarrow>
     checksum_field len (occ_cmd2 seq type len junk data)
      = occ_checksum (occ_cmd1 seq type len) (occ_cmd2_payload junk data len)"
  unfolding occ_cmd2_def Let_def checksum_field_def
  by (simp only: lsl_checksum occ_cmd2_payload_def lsl_payload field_generic field_shift_le)


lemma checksum_in_field:
  fixes ck :: u16
  shows "push_bit s (ucast ck :: u32) AND NOT (push_bit s 0xFFFF) = 0"
  unfolding ffff_mask
  by (auto intro!: bit_word_eqI simp add: bit_simps dest: bit16)

lemma byte_of_checksum_above:
  fixes ck :: u16
  shows "s + 16 \<le> 8 * j \<Longrightarrow> byte_of (push_bit s (ucast ck :: u32)) j = 0"
  unfolding byte_of_def
  by (auto intro!: bit_word_eqI simp add: bit_simps dest!: bit16)

lemma byte_of_push:
  "k + i < 4 \<Longrightarrow> byte_of (push_bit (8 * k) w) (k + i) = byte_of w i"
  unfolding byte_of_def
  by (rule bit_word_eqI) (auto simp add: bit_simps add.commute distrib_left)

lemma byte_of_set_byte:
  "i < 4 \<Longrightarrow> byte_of (set_byte w j b) i = (if i = j then b else byte_of w i)"
  unfolding byte_of_def set_byte_def ff_mask
  by (rule bit_word_eqI) (auto simp add: bit_simps dest!: bit8)

lemma byte_of_memcpy:
  "n \<le> 4 \<Longrightarrow> i < n \<Longrightarrow> byte_of (memcpy_cmd2 junk data n) i = data i"
  unfolding memcpy_cmd2_def
  by (induction n) (auto simp add: byte_of_set_byte less_Suc_eq)

lemma byte_of_or_low:
  fixes ck :: u16
  shows "s + 16 \<le> 8 * j \<Longrightarrow> byte_of (p OR push_bit s (ucast ck)) j = byte_of p j"
  unfolding byte_of_def
  by (auto intro!: bit_word_eqI simp add: bit_simps dest!: bit16)

lemma payload_word_bytes:
  assumes "len \<le> 2" "i < unat len"
  shows "byte_of (occ_cmd2_payload junk data len) (4 - unat len + i) = data i"
proof -
  let ?n = "unat len"
  let ?s = "nat ((2 - uint len) * 8)"
  have u: "?n \<le> 2" using assms by (simp add: word_le_nat_alt)
  have "1 \<le> ?n" using assms(2) by arith
  then have l1: "1 \<le> len" by (simp add: word_le_nat_alt)
  have fs: "?s + 16 = 8 * (4 - ?n)"
    using u by (simp only: field_shift_nat)
  have "occ_cmd2_payload junk data len = push_bit (8 * (4 - ?n)) (memcpy_cmd2 junk data ?n)"
    by (simp only: occ_cmd2_payload_def lsl_payload l1 assms fs)
  also have "byte_of \<dots> (4 - ?n + i) = byte_of (memcpy_cmd2 junk data ?n) i"
    by (rule byte_of_push) (use u assms in arith)
  also have "\<dots> = data i"
    by (rule byte_of_memcpy) (use u assms in simp_all)
  finally show ?thesis .
qed

lemma payload_bytes:
  assumes "len \<le> 2" "i < unat len"
  shows "byte_of (occ_cmd2 seq type len junk data) (4 - unat len + i) = data i"
proof -
  let ?n = "unat len" and ?p = "occ_cmd2_payload junk data len"
  let ?s = "nat ((2 - uint len) * 8)"
  have u: "?n \<le> 2" using assms by (simp add: word_le_nat_alt)
  have "byte_of (occ_cmd2 seq type len junk data) (4 - ?n + i)
      = byte_of (?p OR push_bit ?s (ucast (occ_checksum (occ_cmd1 seq type len) ?p))) (4 - ?n + i)"
    by (simp only: occ_cmd2_def Let_def lsl_checksum assms)
  also have "\<dots> = byte_of ?p (4 - ?n + i)"
    by (rule byte_of_or_low) (unfold field_shift_nat, use u in arith)
  also have "\<dots> = data i"
    by (rule payload_word_bytes[OF assms])
  finally show ?thesis .
qed

lemma checksum_clear_of_payload:
  fixes ck :: u16 and len :: u16
  assumes "len \<le> 2"
  shows "byte_of (push_bit (8 * (2 - unat len)) (ucast ck :: u32)) (4 - unat len + i) = 0"
proof -
  have u: "unat len \<le> 2" using assms by (simp add: word_le_nat_alt)
  show ?thesis by (rule byte_of_checksum_above) (use u in arith)
qed

lemma checksum_bytes:
  assumes "len \<le> 2"
  shows "byte_of (occ_cmd2 seq type len junk data) (2 - unat len)
           = ucast (checksum_field len (occ_cmd2 seq type len junk data))"
    and "byte_of (occ_cmd2 seq type len junk data) (3 - unat len)
           = ucast (drop_bit 8 (checksum_field len (occ_cmd2 seq type len junk data)))"
proof -
  have u: "unat len \<le> 2" using assms by (simp add: word_le_nat_alt)
  have e: "3 - unat len = (2 - unat len) + 1" using u by arith
  show "byte_of (occ_cmd2 seq type len junk data) (2 - unat len)
           = ucast (checksum_field len (occ_cmd2 seq type len junk data))"
    unfolding byte_of_def checksum_field_def field_shift_nat
    by (rule bit_word_eqI) (auto simp add: bit_simps)
  show "byte_of (occ_cmd2 seq type len junk data) (3 - unat len)
           = ucast (drop_bit 8 (checksum_field len (occ_cmd2 seq type len junk data)))"
    unfolding byte_of_def checksum_field_def field_shift_nat e
    by (rule bit_word_eqI) (auto simp add: bit_simps ac_simps)
qed

text \<open>
  The encoder with no payload byte: the copy moves nothing, so \<^verbatim>\<open>cmd2\<close> is what the stack
  held, and the shift is by 32. With \<open>0xDEADBEEF\<close> on the stack the word stays
  \<open>0xDEADBEEF\<close>, the byte sum of the two words is \<open>0x338\<close>, and it is ORed into the two
  high bytes, which hold \<open>0xDEAD\<close>.
\<close>

lemma memcpy_cmd2_nothing: "memcpy_cmd2 junk data 0 = junk"
  by (simp add: memcpy_cmd2_def)

lemma payload_word_length_0: "occ_cmd2_payload 0xDEADBEEF no_bytes 0 = 0xDEADBEEF"
  by (simp add: occ_cmd2_payload_def memcpy_cmd2_nothing lsl32_def)



lemma checksum_bytes_not_clear_without_payload:
  "occ_cmd2_payload 0xDEADBEEF no_bytes 0 AND push_bit (8 * (2 - unat (0::u16))) 0xFFFF = 0xDEAD0000"
  by (simp add: payload_word_length_0)




text \<open>
  C3. For a payload length of 0, 1 or 2 the encoder ORs the checksum into word2 shifted
  up by \<open>2 - length\<close> bytes from the two least significant bytes: the finished word is
  the payload word OR the checksum moved to bytes \<open>2 - length\<close> and \<open>3 - length\<close>, and the
  moved checksum has no bit outside those two bytes. The payload bytes are the \<open>length\<close>
  most significant bytes of the payload word; the moved checksum has no bit in any of
  them, and they are still the payload in the finished word. With a payload (length 1
  or 2) the two checksum bytes are moreover clear in the payload word, so that in the
  finished word they are the low and the high byte of the checksum.
\<close>

theorem checksum_placement:
  assumes "len \<le> 2"
  shows "occ_cmd2 seq type len junk data
           = occ_cmd2_payload junk data len
             OR push_bit (8 * (2 - unat len))
                  (ucast (occ_checksum (occ_cmd1 seq type len) (occ_cmd2_payload junk data len)))
       \<and> push_bit (8 * (2 - unat len))
             (ucast (occ_checksum (occ_cmd1 seq type len) (occ_cmd2_payload junk data len)) :: u32)
           AND NOT (push_bit (8 * (2 - unat len)) 0xFFFF) = 0
       \<and> (\<forall>i < unat len.
             byte_of (occ_cmd2_payload junk data len) (4 - unat len + i) = data i
           \<and> byte_of (push_bit (8 * (2 - unat len))
                  (ucast (occ_checksum (occ_cmd1 seq type len) (occ_cmd2_payload junk data len)) :: u32))
                (4 - unat len + i) = 0
           \<and> byte_of (occ_cmd2 seq type len junk data) (4 - unat len + i) = data i)
       \<and> (1 \<le> len \<longrightarrow>
             occ_cmd2_payload junk data len AND push_bit (8 * (2 - unat len)) 0xFFFF = 0
           \<and> byte_of (occ_cmd2 seq type len junk data) (2 - unat len)
               = ucast (occ_checksum (occ_cmd1 seq type len) (occ_cmd2_payload junk data len))
           \<and> byte_of (occ_cmd2 seq type len junk data) (3 - unat len)
               = ucast (drop_bit 8 (occ_checksum (occ_cmd1 seq type len) (occ_cmd2_payload junk data len))))"
proof -
  let ?ck = "occ_checksum (occ_cmd1 seq type len) (occ_cmd2_payload junk data len)"
  have 1: "occ_cmd2 seq type len junk data
           = occ_cmd2_payload junk data len OR push_bit (8 * (2 - unat len)) (ucast ?ck)"
    by (simp only: occ_cmd2_def Let_def lsl_checksum assms field_shift_nat)
  have 2: "push_bit (8 * (2 - unat len)) (ucast ?ck :: u32)
           AND NOT (push_bit (8 * (2 - unat len)) 0xFFFF) = 0"
    by (rule checksum_in_field)
  have 3: "\<forall>i < unat len.
             byte_of (occ_cmd2_payload junk data len) (4 - unat len + i) = data i
           \<and> byte_of (push_bit (8 * (2 - unat len)) (ucast ?ck :: u32)) (4 - unat len + i) = 0
           \<and> byte_of (occ_cmd2 seq type len junk data) (4 - unat len + i) = data i"
    using payload_word_bytes[OF assms] checksum_clear_of_payload[OF assms] payload_bytes[OF assms]
    by blast
  have 4: "occ_cmd2_payload junk data len AND push_bit (8 * (2 - unat len)) 0xFFFF = 0
           \<and> byte_of (occ_cmd2 seq type len junk data) (2 - unat len) = ucast ?ck
           \<and> byte_of (occ_cmd2 seq type len junk data) (3 - unat len) = ucast (drop_bit 8 ?ck)"
    if l: "1 \<le> len"
  proof -
    have a: "occ_cmd2_payload junk data len AND push_bit (8 * (2 - unat len)) 0xFFFF = 0"
      using field_clear[OF l assms] by (simp only: field_shift_nat)
    note b = checksum_bytes[OF assms, of seq type junk data, unfolded field_holds_checksum[OF l assms]]
    from a b show ?thesis by blast
  qed
  from 1 2 3 4 show ?thesis by blast
qed

theorem checksum_placement_witness:
  "(2::u16) \<le> 2 \<and> (1::u16) \<le> 2
   \<and> byte_of (occ_cmd2 0 0x22 2 0xDEADBEEF (\<lambda>i. if i = 0 then 0x12 else 0x34)) 2 = 0x12
   \<and> byte_of (occ_cmd2 0 0x22 2 0xDEADBEEF (\<lambda>i. if i = 0 then 0x12 else 0x34)) 3 = 0x34
   \<and> occ_cmd2_payload 0xDEADBEEF (\<lambda>i. if i = 0 then 0x12 else 0x34) 2 AND 0xFFFF = 0
   \<and> byte_of (occ_cmd2 0 0x22 2 0xDEADBEEF (\<lambda>i. if i = 0 then 0x12 else 0x34)) 0
       = ucast (occ_checksum (occ_cmd1 0 0x22 2)
                  (occ_cmd2_payload 0xDEADBEEF (\<lambda>i. if i = 0 then 0x12 else 0x34) 2))"
proof -
  let ?d = "\<lambda>i::nat. if i = 0 then 0x12 else (0x34::u8)"
  have le: "(2::u16) \<le> 2" and l1: "(1::u16) \<le> 2" by simp_all
  note w = checksum_placement[OF le, of 0 "0x22" "0xDEADBEEF" ?d]
  from w have a: "\<forall>i < unat (2::u16).
        byte_of (occ_cmd2_payload 0xDEADBEEF ?d 2) (4 - unat (2::u16) + i) = ?d i
      \<and> byte_of (push_bit (8 * (2 - unat (2::u16)))
             (ucast (occ_checksum (occ_cmd1 0 0x22 2) (occ_cmd2_payload 0xDEADBEEF ?d 2)) :: u32))
           (4 - unat (2::u16) + i) = 0
      \<and> byte_of (occ_cmd2 0 0x22 2 0xDEADBEEF ?d) (4 - unat (2::u16) + i) = ?d i"
    by blast
  have "byte_of (occ_cmd2 0 0x22 2 0xDEADBEEF ?d) (4 - unat (2::u16) + 0) = ?d 0"
    and "byte_of (occ_cmd2 0 0x22 2 0xDEADBEEF ?d) (4 - unat (2::u16) + 1) = ?d 1"
    using a[rule_format, of 0] a[rule_format, of 1] by simp_all
  moreover from w l1 have
    "occ_cmd2_payload 0xDEADBEEF ?d 2 AND push_bit (8 * (2 - unat (2::u16))) 0xFFFF = 0
     \<and> byte_of (occ_cmd2 0 0x22 2 0xDEADBEEF ?d) (2 - unat (2::u16))
         = ucast (occ_checksum (occ_cmd1 0 0x22 2) (occ_cmd2_payload 0xDEADBEEF ?d 2))"
    by blast
  ultimately show ?thesis by simp
qed

section \<open>Properties of teardown and of the parser's validation\<close>

lemma cstr_Cons: "cstr (c # s) \<circ> Suc = cstr s" "cstr (c # s) 0 = of_char c"
  by (auto simp add: cstr_def fun_eq_iff)

lemma map_upt_shift: "map a [0..<Suc n] = a 0 # map (a \<circ> Suc) [0..<n]"
  by (simp add: map_upt_Suc comp_def del: upt_Suc)

lemma strncmp_cstr:
  "(0::u8) \<notin> of_char ` set s \<Longrightarrow>
     strncmp_eq a (cstr s) (length s) \<longleftrightarrow> map a [0..<length s] = map of_char s"
proof (induction s arbitrary: a)
  case Nil
  then show ?case by simp
next
  case (Cons c s)
  from Cons.prems have nz: "(of_char c :: u8) \<noteq> 0" and rest: "(0::u8) \<notin> of_char ` set s"
    by auto
  have m: "map a [0..<length (c # s)] = a 0 # map (a \<circ> Suc) [0..<length s]"
    by (simp only: length_Cons map_upt_shift)
  have "strncmp_eq a (cstr (c # s)) (length (c # s))
      = (a 0 = of_char c \<and> (a 0 = 0 \<or> strncmp_eq (a \<circ> Suc) (cstr s) (length s)))"
    by (simp only: length_Cons strncmp_eq.simps cstr_Cons)
  also have "\<dots> = (a 0 = of_char c \<and> map (a \<circ> Suc) [0..<length s] = map of_char s)"
    using nz Cons.IH[OF rest, of "a \<circ> Suc"] by metis
  also have "\<dots> = (map a [0..<length (c # s)] = map of_char (c # s))"
    by (simp only: m list.map list.inject)
  finally show ?case .
qed

lemma strncmp_SENSOR:
  "strncmp_eq a (cstr ''SENSOR'') 6 \<longleftrightarrow> map a [0..<6] = map of_char ''SENSOR''"
proof -
  have len: "length ''SENSOR'' = 6" by simp
  have nz: "(0::u8) \<notin> of_char ` set ''SENSOR''" by simp
  from strncmp_cstr[OF nz, of a] show ?thesis by (simp only: len)
qed

lemma strncmp_tag:
  assumes "length s = 4" "(0::u8) \<notin> of_char ` set s"
  shows "strncmp_eq a (cstr s) 4 \<longleftrightarrow> map a [0..<4] = map of_char s"
  using strncmp_cstr[OF assms(2), of a] by (simp only: assms(1))

text \<open>What \<^verbatim>\<open>kfree\<close> and the teardown loop do to the heap: objects only go away.\<close>

lemma shrinks_refl: "shrinks h h"
  by (simp add: shrinks_def)

lemma shrinks_trans: "shrinks h h1 \<Longrightarrow> shrinks h1 h2 \<Longrightarrow> shrinks h h2"
  unfolding shrinks_def by metis

lemma kfree_shrinks: "kfree p h = Some h' \<Longrightarrow> shrinks h h'"
  by (auto simp add: kfree_def shrinks_def split: if_splits)

lemma kfree_dead: "kfree p h = Some h' \<Longrightarrow> p \<noteq> 0 \<Longrightarrow> cells h' p = None"
  by (auto simp add: kfree_def split: if_splits)

lemma shrinks_dead: "shrinks h h' \<Longrightarrow> cells h a = None \<Longrightarrow> cells h' a = None"
  unfolding shrinks_def by metis

lemma shrinks_load: "shrinks h h' \<Longrightarrow> load h' p = Some c \<Longrightarrow> load h p = Some c"
  unfolding shrinks_def load_def by (metis option.distinct(1))

lemma block_at_load:
  "block_at h bp i = Some b \<Longrightarrow> \<exists>bs. load h bp = Some (BlockArr bs) \<and> 0 \<le> i \<and> nat i < length bs \<and> b = bs ! nat i"
  by (auto simp add: block_at_def split: option.splits cell.splits if_splits)

lemma free_block_arrays_shrinks:
  "free_block_arrays bp i k h = Some h' \<Longrightarrow> shrinks h h'"
proof (induction k arbitrary: i h)
  case 0
  then show ?case by (simp add: shrinks_refl)
next
  case (Suc k)
  from Suc.prems obtain h1 h2 h3 where
    "shrinks h h1" "shrinks h1 h2" "shrinks h2 h3" "free_block_arrays bp (Suc i) k h3 = Some h'"
    by (auto simp add: bind_eq_Some_conv dest!: kfree_shrinks)
  with Suc.IH show ?case by (blast intro: shrinks_trans)
qed

lemma free_block_arrays_dead:
  assumes "free_block_arrays bp i k h = Some h'" "load h bp = Some (BlockArr bs)"
    "i \<le> j" "j < i + k" "q \<in> array_ptrs (bs ! j)"
  shows "cells h' q = None"
  using assms
proof (induction k arbitrary: i h)
  case 0
  then show ?case by simp
next
  case (Suc k)
  from Suc.prems(1) obtain b1 h1 b2 h2 b3 h3 where
    s: "block_at h bp (int i) = Some b1" "kfree (sensor b1) h = Some h1"
       "block_at h1 bp (int i) = Some b2" "kfree (power_arr b2) h1 = Some h2"
       "block_at h2 bp (int i) = Some b3" "kfree (caps_arr b3) h2 = Some h3"
       "free_block_arrays bp (Suc i) k h3 = Some h'"
    by (auto simp add: bind_eq_Some_conv)
  note sh = kfree_shrinks[OF s(2)] kfree_shrinks[OF s(4)] kfree_shrinks[OF s(6)]
  have l1: "load h1 bp = Some (BlockArr bs)" and l2: "load h2 bp = Some (BlockArr bs)"
    using block_at_load[OF s(3)] block_at_load[OF s(5)] sh Suc.prems(2)
    by (metis shrinks_load)+
  have b: "b1 = bs ! i" "b2 = bs ! i" "b3 = bs ! i"
    using block_at_load[OF s(1)] block_at_load[OF s(3)] block_at_load[OF s(5)] Suc.prems(2) l1 l2
    by auto
  have rest: "shrinks h3 h'" by (rule free_block_arrays_shrinks[OF s(7)])
  show ?case
  proof (cases "j = i")
    case True
    with Suc.prems(5) have "q \<noteq> 0" "q = sensor (bs ! i) \<or> q = power_arr (bs ! i) \<or> q = caps_arr (bs ! i)"
      by (auto simp add: array_ptrs_def)
    then have "cells h3 q = None"
      using kfree_dead[OF s(2)] kfree_dead[OF s(4)] kfree_dead[OF s(6)] sh b
      by (metis shrinks_dead)
    then show ?thesis using rest by (rule shrinks_dead[rotated])
  next
    case False
    with Suc.prems have j: "Suc i \<le> j" "j < Suc i + k" by auto
    then obtain k' where k: "k = Suc k'" by (cases k) auto
    from s(7) obtain b4 where "block_at h3 bp (int (Suc i)) = Some b4"
      unfolding k by (auto simp add: bind_eq_Some_conv)
    from block_at_load[OF this] have "load h3 bp = Some (BlockArr bs)"
      using sh(3) l2 by (metis shrinks_load)
    from Suc.IH[OF s(7) this j Suc.prems(5)] show ?thesis .
  qed
qed


lemma deinit_null: "blocks p = 0 \<Longrightarrow> deinit_occ_resp_buf (p, h) = Some (p, h)"
  by (simp add: deinit_occ_resp_buf_def)

lemma deinit_full:
  assumes "blocks p \<noteq> 0" "deinit_occ_resp_buf (p, h) = Some (p', h')"
  shows "p' = reset_response" "cells h' (blocks p) = None" "shrinks h h'"
    "load h (blocks p) = Some (BlockArr bs) \<Longrightarrow> j < unat (sensor_block_num (header p)) \<Longrightarrow>
       q \<in> array_ptrs (bs ! j) \<Longrightarrow> cells h' q = None"
proof -
  from assms obtain h1 where
    s: "free_block_arrays (blocks p) 0 (unat (sensor_block_num (header p))) h = Some h1"
       "kfree (blocks p) h1 = Some h'" "p' = reset_response"
    by (auto simp add: deinit_occ_resp_buf_def reset_response_def bind_eq_Some_conv)
  show "p' = reset_response" by fact
  show "cells h' (blocks p) = None" using kfree_dead[OF s(2) assms(1)] .
  show "shrinks h h'"
    using free_block_arrays_shrinks[OF s(1)] kfree_shrinks[OF s(2)] by (rule shrinks_trans)
  show "cells h' q = None"
    if "load h (blocks p) = Some (BlockArr bs)" "j < unat (sensor_block_num (header p))"
       "q \<in> array_ptrs (bs ! j)"
  proof -
    have "cells h1 q = None"
      by (rule free_block_arrays_dead[OF s(1) that(1) _ _ that(3)]) (use that(2) in simp_all)
    then show ?thesis using kfree_shrinks[OF s(2)] by (rule shrinks_dead[rotated])
  qed
qed

text \<open>
  C10. Teardown of a response state whose block-list pointer is \<^verbatim>\<open>NULL\<close> returns at once
  and changes nothing: not the four indices, not the stored header, not the heap. The
  complete reset happens only when a block list is present: then the state becomes the
  reset state, the block list is no longer live, and neither is any array that a block
  of the list pointed to.
\<close>

theorem deinit_needs_block_list:
  "(blocks p = 0 \<longrightarrow> deinit_occ_resp_buf (p, h) = Some (p, h))
   \<and> (blocks p \<noteq> 0 \<and> deinit_occ_resp_buf (p, h) = Some (p', h') \<longrightarrow>
        p' = reset_response \<and> cells h' (blocks p) = None
        \<and> (\<forall>bs j q. load h (blocks p) = Some (BlockArr bs)
               \<and> j < unat (sensor_block_num (header p)) \<and> q \<in> array_ptrs (bs ! j)
             \<longrightarrow> cells h' q = None))"
  using deinit_null[of p h] deinit_full[of p h p' h'] by blast

lemma deinit_one_block:
  "deinit_occ_resp_buf (resp_one_block, heap_one_block)
     = Some (reset_response, heap_one_block\<lparr>cells := (\<lambda>a. None)\<rparr>)"
  by (simp add: deinit_occ_resp_buf_def resp_one_block_def heap_one_block_def zero_response_def
        zero_header_def zero_block_def block_at_def load_def kfree_def reset_response_def fun_eq_iff)

theorem deinit_needs_block_list_witness:
  "blocks resp_no_blocks = 0
   \<and> deinit_occ_resp_buf (resp_no_blocks, heap0) = Some (resp_no_blocks, heap0)
   \<and> temp_block_id resp_no_blocks = 3
   \<and> blocks resp_one_block \<noteq> 0
   \<and> deinit_occ_resp_buf (resp_one_block, heap_one_block)
       = Some (reset_response, heap_one_block\<lparr>cells := (\<lambda>a. None)\<rparr>)
   \<and> temp_block_id reset_response = - 1
   \<and> cells (heap_one_block\<lparr>cells := (\<lambda>a. None)\<rparr>) 2 = None"
  using deinit_needs_block_list[of resp_no_blocks heap0 resp_no_blocks heap0]
    deinit_needs_block_list[of resp_one_block heap_one_block reset_response
      "heap_one_block\<lparr>cells := (\<lambda>a. None)\<rparr>"]
    deinit_one_block
  by (simp add: resp_no_blocks_def resp_one_block_def zero_response_def reset_response_def)

text \<open>
  C5. Whatever else the buffer holds, when the six bytes at offset 37 are not "SENSOR",
  or the byte at offset 43 is zero, the parse is the teardown of the previous state
  followed by the return of \<open>MalformedResponse\<close>: the result does not depend on the
  buffer, no block is looked at, and a wrong signature decides before the block count.
\<close>

theorem parse_malformed:
  assumes "map (\<lambda>i. data (SENSOR_STR_OFFSET + i)) [0..<6] \<noteq> map of_char ''SENSOR''
           \<or> data SENSOR_BLOCK_NUM_OFFSET = 0"
  shows "parse_occ_response data (resp, h)
           = map_option (\<lambda>(resp', h'). (Inl MalformedResponse, resp', h'))
               (deinit_occ_resp_buf (resp, h))"
proof (cases "map (\<lambda>i. data (SENSOR_STR_OFFSET + i)) [0..<6] = map of_char ''SENSOR''")
  case False
  have "\<not> strncmp_eq (\<lambda>i. data (SENSOR_STR_OFFSET + i)) (cstr ''SENSOR'') 6"
    unfolding strncmp_SENSOR by (rule False)
  then show ?thesis
    by (cases "deinit_occ_resp_buf (resp, h)") (auto simp add: parse_occ_response_def)
next
  case True
  with assms have "data SENSOR_BLOCK_NUM_OFFSET = 0" by blast
  then show ?thesis
    by (cases "deinit_occ_resp_buf (resp, h)") (auto simp add: parse_occ_response_def Let_def)
qed

theorem parse_malformed_witness:
  "map (\<lambda>i. (\<lambda>i. 0::u8) (SENSOR_STR_OFFSET + i)) [0..<6] \<noteq> map of_char ''SENSOR''
   \<and> parse_occ_response (\<lambda>i. 0) (resp_one_block, heap_one_block)
       = Some (Inl MalformedResponse, reset_response, heap_one_block\<lparr>cells := (\<lambda>a. None)\<rparr>)"
  using parse_malformed[of "\<lambda>i. 0" resp_one_block heap_one_block] deinit_one_block
  by (simp add: upt_rec)

section \<open>Properties of the command exchange and of the refresh\<close>

lemma poke_capacity: "capacity (poke d off v) = capacity d"
  by (simp add: poke_def)

lemma getscomb_failed:
  "fst (fst (occ_getscomb bus a resp off s)) \<noteq> 0 \<Longrightarrow> snd (fst (occ_getscomb bus a resp off s)) = resp"
  by (auto simp add: occ_getscomb_def Let_def split: prod.splits if_splits)

lemma send_cmd_final_read:
  "\<exists>s'. occ_send_cmd bus seq type len data junk resp s
          = (case occ_getscomb bus OCB_DATA resp 0 s' of ((r, resp'), s'') \<Rightarrow> ((mem resp' 2, resp'), s''))"
  unfolding occ_send_cmd_def Let_def case_prod_beta
  by (rule exI, rule refl)

lemma get_all_rejected:
  assumes "\<not> oom h (allocs h)"
    "fst (fst (occ_send_cmd bus 0 0 1 poll_byte junk (fresh_frame beyond) s)) \<noteq> 0"
  shows "occ_get_all bus junk beyond (resp, h, s)
     = Some (Inl ProtocolRejected, resp, h\<lparr>allocs := Suc (allocs h)\<rparr>,
             snd (occ_send_cmd bus 0 0 1 poll_byte junk (fresh_frame beyond) s))"
  using assms
  by (simp add: occ_get_all_def devm_kzalloc_def Let_def case_prod_beta poll_byte_def)

lemma dead_putscom: "occ_putscom dead_bus a d0 d1 s = (I2C_WRITE_ERROR, Suc s)"
  by (simp add: occ_putscom_def occ_i2c_write_def dead_bus_def Let_def)

lemma dead_getscomb: "occ_getscomb dead_bus a resp off s = ((- I2C_WRITE_ERROR, resp), Suc s)"
  by (simp add: occ_getscomb_def occ_i2c_write_def dead_bus_def Let_def)

lemma dead_send_cmd:
  "occ_send_cmd dead_bus seq type len data junk resp s = ((mem resp 2, resp), s + 8)"
  by (simp add: occ_send_cmd_def dead_putscom dead_getscomb Let_def)

lemma fresh_frame_zero: "i < 4096 \<Longrightarrow> mem (fresh_frame beyond) i = 0"
  by (simp add: fresh_frame_def OCC_DATA_MAX_def)

lemma dead_get_all:
  "\<not> oom h (allocs h) \<Longrightarrow>
     occ_get_all dead_bus junk beyond (resp, h, s)
       = Some (Inl BadReplyLength, resp, h\<lparr>allocs := Suc (allocs h)\<rparr>, s + 8)"
  by (simp add: occ_get_all_def devm_kzalloc_def dead_send_cmd Let_def fresh_frame_zero
        get_occdata_length_def be16_at_def RESP_DATA_LENGTH_def OCC_DATA_MAX_def)

text \<open>
  C1, as stated, fails. On a bus where every transfer fails, the first drive step
  returns the write error, and the exchange returns 0, the byte the zeroed buffer held.
\<close>

theorem send_cmd_drops_transport_error:
  "fst (occ_putscom dead_bus OCB_STATUS_CONTROL_OR 0x08000000 0x00000000 0) = I2C_WRITE_ERROR
   \<and> I2C_WRITE_ERROR \<noteq> 0
   \<and> fst (fst (occ_send_cmd dead_bus 0 0 1 poll_byte 0 (fresh_frame no_bytes) 0)) = 0"
  by (simp add: dead_putscom dead_send_cmd fresh_frame_zero I2C_WRITE_ERROR_def)

text \<open>
  C1, amended. The exchange reads no result of its register accesses. What it returns
  is byte 2 of the reply buffer after the final read, and the final read leaves the
  buffer as it was when it fails; so the value is the status byte the device sent, or
  the byte the buffer held before. On the poll path a value other than 0 ends the
  refresh with \<open>ProtocolRejected\<close>, the response state untouched.
\<close>

theorem send_cmd_returns_reply_byte:
  "(\<exists>s'. occ_send_cmd bus seq type len data junk resp s
           = (case occ_getscomb bus OCB_DATA resp 0 s' of
                ((r, resp'), s'') \<Rightarrow> ((mem resp' 2, resp'), s'')))
   \<and> (\<forall>s'. fst (fst (occ_getscomb bus OCB_DATA resp 0 s')) \<noteq> 0
           \<longrightarrow> snd (fst (occ_getscomb bus OCB_DATA resp 0 s')) = resp)
   \<and> (\<not> oom h (allocs h)
        \<and> fst (fst (occ_send_cmd bus 0 0 1 poll_byte junk (fresh_frame beyond) s)) \<noteq> 0
      \<longrightarrow> occ_get_all bus junk beyond (r, h, s)
            = Some (Inl ProtocolRejected, r, h\<lparr>allocs := Suc (allocs h)\<rparr>,
                    snd (occ_send_cmd bus 0 0 1 poll_byte junk (fresh_frame beyond) s)))"
  using send_cmd_final_read[of bus seq type len data junk resp s]
    getscomb_failed[of bus OCB_DATA resp 0] get_all_rejected[of h bus junk beyond s r]
  by blast

lemma echo_putscom: "occ_putscom (echo_bus reply) a d0 d1 s = (0, Suc s)"
  by (simp add: occ_putscom_def occ_i2c_write_def echo_bus_def Let_def bytes32_def)

lemma echo_getscomb:
  "occ_getscomb (echo_bus reply) a resp off s
     = ((0, fold (\<lambda>i d. poke d (off + i) (reply (7 - i))) [0..<8] resp), Suc (Suc s))"
  by (simp add: occ_getscomb_def occ_i2c_write_def occ_i2c_read_def echo_bus_def Let_def bytes32_def)

lemma echo_send_cmd:
  "occ_send_cmd (echo_bus reply) seq type len data junk resp s
     = ((mem (fold (\<lambda>i d. poke d i (reply (7 - i))) [0..<8] resp) 2,
         fold (\<lambda>i d. poke d i (reply (7 - i))) [0..<8] resp), s + 9)"
  by (simp add: occ_send_cmd_def echo_putscom echo_getscomb Let_def)

theorem send_cmd_returns_reply_byte_witness:
  "fst (fst (occ_getscomb dead_bus OCB_DATA (fresh_frame no_bytes) 0 7)) \<noteq> 0
   \<and> snd (fst (occ_getscomb dead_bus OCB_DATA (fresh_frame no_bytes) 0 7)) = fresh_frame no_bytes
   \<and> \<not> oom heap0 (allocs heap0)
   \<and> fst (fst (occ_send_cmd (echo_bus reply_rejected) 0 0 1 poll_byte 0 (fresh_frame no_bytes) 0)) = 0xE1
   \<and> occ_get_all (echo_bus reply_rejected) 0 no_bytes (reset_response, heap0, 0)
       = Some (Inl ProtocolRejected, reset_response, heap0\<lparr>allocs := 1\<rparr>, 9)"
proof -
  have st: "fst (fst (occ_send_cmd (echo_bus reply_rejected) 0 0 1 poll_byte 0 (fresh_frame no_bytes) 0)) = 0xE1"
    by (simp add: echo_send_cmd reply_rejected_def upt_rec poke_def)
  note d = send_cmd_returns_reply_byte[where bus = dead_bus and resp = "fresh_frame no_bytes"
      and seq = 0 and type = 0 and len = 1 and data = poll_byte and junk = 0 and s = 0
      and h = heap0 and beyond = no_bytes and r = reset_response]
  from d have "\<forall>s'. fst (fst (occ_getscomb dead_bus OCB_DATA (fresh_frame no_bytes) 0 s')) \<noteq> 0
           \<longrightarrow> snd (fst (occ_getscomb dead_bus OCB_DATA (fresh_frame no_bytes) 0 s')) = fresh_frame no_bytes"
    by blast
  from this[rule_format, of 7]
  have 1: "snd (fst (occ_getscomb dead_bus OCB_DATA (fresh_frame no_bytes) 0 7)) = fresh_frame no_bytes"
    by (simp add: dead_getscomb I2C_WRITE_ERROR_def)
  note e = send_cmd_returns_reply_byte[where bus = "echo_bus reply_rejected"
      and resp = "fresh_frame no_bytes" and seq = 0 and type = 0 and len = 1 and data = poll_byte
      and junk = 0 and s = 0 and h = heap0 and beyond = no_bytes and r = reset_response]
  have no: "\<not> oom heap0 (allocs heap0)" by (simp add: heap0_def)
  from e no st have 2: "occ_get_all (echo_bus reply_rejected) 0 no_bytes (reset_response, heap0, 0)
       = Some (Inl ProtocolRejected, reset_response, heap0\<lparr>allocs := Suc (allocs heap0)\<rparr>,
               snd (occ_send_cmd (echo_bus reply_rejected) 0 0 1 poll_byte 0 (fresh_frame no_bytes) 0))"
    by simp
  have 0: "fst (fst (occ_getscomb dead_bus OCB_DATA (fresh_frame no_bytes) 0 7)) \<noteq> 0"
    by (simp add: dead_getscomb I2C_WRITE_ERROR_def)
  from 0 1 2 no st show ?thesis
    by (simp add: heap0_def echo_send_cmd)
qed

lemma update_device_failed:
  assumes "occ_update_device bus junk beyond j1 j2 (data, h, s) = Some (Inl e, data', h', s')"
  shows "\<not> valid data'" "last_updated data' = j2"
  using assms
  by (auto simp add: occ_update_device_def Let_def bind_eq_Some_conv split: if_splits)

lemma update_device_invalid:
  assumes "\<not> valid data"
  shows "occ_update_device bus junk beyond j1 j2 (data, h, s)
     = map_option (\<lambda>(ret, resp, h, s).
           (ret, data\<lparr>valid := \<not> isl ret, occ_resp := resp, last_updated := j2\<rparr>, h, s))
         (occ_get_all bus junk beyond (occ_resp data, h, s))"
  using assms
  by (cases "occ_get_all bus junk beyond (occ_resp data, h, s)")
     (auto simp add: occ_update_device_def Let_def)

lemma update_device_cached:
  "valid data \<Longrightarrow> \<not> time_after j1 (last_updated data + update_interval data) \<Longrightarrow>
     occ_update_device bus junk beyond j1 j2 (data, h, s) = Some (Inr (), data, h, s)"
  by (simp add: occ_update_device_def)

text \<open>
  C9, as stated, fails. On the bus where every transfer fails, a refresh at tick 2000
  fails and leaves \<open>valid = False\<close>, \<open>last_updated = 2000\<close>. The next call comes at tick
  2001, inside the interval of 1000 ticks, and fetches again: the bus sees eight more
  transfers and \<open>last_updated\<close> moves to 2001.
\<close>

theorem failed_refresh_refetches_within_interval:
  "occ_update_device dead_bus 0 no_bytes 2000 2000 (drv0, heap0, 0)
     = Some (Inl BadReplyLength, drv0\<lparr>valid := False, last_updated := 2000\<rparr>,
             heap0\<lparr>allocs := 1\<rparr>, 8)
   \<and> \<not> time_after 2001 (last_updated (drv0\<lparr>valid := False, last_updated := 2000\<rparr>)
                         + update_interval (drv0\<lparr>valid := False, last_updated := 2000\<rparr>))
   \<and> occ_update_device dead_bus 0 no_bytes 2001 2001
         (drv0\<lparr>valid := False, last_updated := 2000\<rparr>, heap0\<lparr>allocs := 1\<rparr>, 8)
     = Some (Inl BadReplyLength, drv0\<lparr>valid := False, last_updated := 2001\<rparr>,
             heap0\<lparr>allocs := 2\<rparr>, 16)"
  by (simp add: occ_update_device_def dead_get_all drv0_def heap0_def time_after_def)

text \<open>
  C9, amended. Every refresh attempt that fails leaves \<open>valid = False\<close> and
  \<open>last_updated\<close> at the tick read after the attempt. Because \<open>valid\<close> is false, the
  next call fetches again whatever the two tick values are: a failed refresh does not
  hold the next attempt back for the interval.
\<close>

theorem failed_refresh_retries_at_once:
  assumes "occ_update_device bus junk beyond j1 j2 (data, h, s) = Some (Inl e, data', h', s')"
  shows "\<not> valid data' \<and> last_updated data' = j2
       \<and> (\<forall>j3 j4. occ_update_device bus junk beyond j3 j4 (data', h', s')
             = map_option (\<lambda>(ret, resp, h, s).
                   (ret, data'\<lparr>valid := \<not> isl ret, occ_resp := resp, last_updated := j4\<rparr>, h, s))
                 (occ_get_all bus junk beyond (occ_resp data', h', s')))"
  using update_device_failed[OF assms] update_device_invalid[of data' bus junk beyond _ _ h' s']
  by blast

theorem failed_refresh_retries_at_once_witness:
  "occ_update_device dead_bus 0 no_bytes 2000 2000 (drv0, heap0, 0)
     = Some (Inl BadReplyLength, drv0\<lparr>valid := False, last_updated := 2000\<rparr>,
             heap0\<lparr>allocs := 1\<rparr>, 8)
   \<and> occ_update_device dead_bus 0 no_bytes 2001 2002
         (drv0\<lparr>valid := False, last_updated := 2000\<rparr>, heap0\<lparr>allocs := 1\<rparr>, 8)
     = Some (Inl BadReplyLength, drv0\<lparr>valid := False, last_updated := 2002\<rparr>,
             heap0\<lparr>allocs := 2\<rparr>, 16)"
proof -
  have 1: "occ_update_device dead_bus 0 no_bytes 2000 2000 (drv0, heap0, 0)
     = Some (Inl BadReplyLength, drv0\<lparr>valid := False, last_updated := 2000\<rparr>,
             heap0\<lparr>allocs := 1\<rparr>, 8)"
    by (simp add: occ_update_device_def dead_get_all drv0_def heap0_def time_after_def)
  from failed_refresh_retries_at_once[OF 1]
  have "occ_update_device dead_bus 0 no_bytes 2001 2002
         (drv0\<lparr>valid := False, last_updated := 2000\<rparr>, heap0\<lparr>allocs := 1\<rparr>, 8)
     = map_option (\<lambda>(ret, resp, h, s).
           (ret, drv0\<lparr>valid := False, last_updated := 2000\<rparr>
                   \<lparr>valid := \<not> isl ret, occ_resp := resp, last_updated := 2002\<rparr>, h, s))
         (occ_get_all dead_bus 0 no_bytes
            (occ_resp (drv0\<lparr>valid := False, last_updated := 2000\<rparr>), heap0\<lparr>allocs := 1\<rparr>, 8))"
    by blast
  with 1 show ?thesis
    by (simp add: dead_get_all drv0_def heap0_def)
qed

section \<open>The extent of the reads into the raw frame\<close>

lemma fold_poke_capacity:
  "capacity (fold (\<lambda>i d. poke d (f i) (g i)) xs d) = capacity d"
  by (induction xs arbitrary: d) (simp_all add: poke_capacity)

lemma fold_poke_overrun:
  "overrun (fold (\<lambda>i d. poke d (f i) (g i)) xs d)
     = overrun d @ filter (\<lambda>x. capacity d \<le> x) (map f xs)"
  by (induction xs arbitrary: d) (simp_all add: poke_capacity, simp add: poke_def)

lemma getscomb_capacity: "capacity (snd (fst (occ_getscomb bus a d off s))) = capacity d"
  by (simp add: occ_getscomb_def Let_def case_prod_beta fold_poke_capacity)

lemma echo_getscomb_overrun:
  "overrun (snd (fst (occ_getscomb (echo_bus reply) a d off s)))
     = overrun d @ filter (\<lambda>x. capacity d \<le> x) [off..<off + 8]"
proof -
  have "map (\<lambda>i. off + i) [0..<8] = [off..<off + 8]"
    using map_add_upt[of off 8] by (simp add: add.commute)
  then show ?thesis
    by (simp only: echo_getscomb fst_conv snd_conv fold_poke_overrun)
qed

lemma read_remaining_step:
  "i < n \<Longrightarrow> read_remaining bus i n d s
     = read_remaining bus (i + 8) n (snd (fst (occ_getscomb bus OCB_DATA d i s)))
         (snd (occ_getscomb bus OCB_DATA d i s))"
  by (subst read_remaining.simps) (simp add: case_prod_beta)

lemma read_remaining_done: "\<not> i < n \<Longrightarrow> read_remaining bus i n d s = (d, s)"
  by (subst read_remaining.simps) simp

lemma read_remaining_capacity:
  "capacity (fst (read_remaining bus i n d s)) = capacity d"
proof (induction "n - i" arbitrary: i d s rule: less_induct)
  case less
  show ?case
  proof (cases "i < n")
    case True
    then have "n - (i + 8) < n - i" by arith
    from less[OF this] show ?thesis
      by (simp only: read_remaining_step[OF True] getscomb_capacity)
  next
    case False
    then show ?thesis by (simp add: read_remaining_done)
  qed
qed

lemma getscomb_overrun_grows:
  "set (overrun d) \<subseteq> set (overrun (snd (fst (occ_getscomb bus a d off s))))"
  by (auto simp add: occ_getscomb_def Let_def case_prod_beta fold_poke_overrun)

lemma read_remaining_overrun_grows:
  "set (overrun d) \<subseteq> set (overrun (fst (read_remaining bus i n d s)))"
proof (induction "n - i" arbitrary: i d s rule: less_induct)
  case less
  show ?case
  proof (cases "i < n")
    case True
    then have m: "n - (i + 8) < n - i" by arith
    show ?thesis
      unfolding read_remaining_step[OF True]
      using less[OF m] getscomb_overrun_grows by (rule order_trans[rotated])
  next
    case False
    then show ?thesis by (simp add: read_remaining_done)
  qed
qed

text \<open>
  When every transfer is complete, the read that the loop starts at an offset \<open>j\<close> at
  or beyond the capacity stores there.
\<close>

lemma echo_getscomb_hits:
  "capacity d \<le> off \<Longrightarrow> off \<in> set (overrun (snd (fst (occ_getscomb (echo_bus reply) a d off s))))"
  by (simp add: echo_getscomb_overrun)

lemma echo_read_remaining_hits:
  assumes "i \<le> j" "j < n" "8 dvd j - i" "capacity d \<le> j"
  shows "j \<in> set (overrun (fst (read_remaining (echo_bus reply) i n d s)))"
  using assms
proof (induction "n - i" arbitrary: i d s rule: less_induct)
  case less
  from less.prems have lt: "i < n" by simp
  then have m: "n - (i + 8) < n - i" by arith
  let ?d' = "snd (fst (occ_getscomb (echo_bus reply) OCB_DATA d i s))"
  show ?case
  proof (cases "i = j")
    case True
    with less.prems have "j \<in> set (overrun ?d')" by (simp add: echo_getscomb_hits)
    then show ?thesis
      unfolding read_remaining_step[OF lt]
      by (rule subsetD[OF read_remaining_overrun_grows])
  next
    case False
    from less.prems(3) obtain k where k: "j - i = 8 * k" by (rule dvdE)
    from False less.prems(1) k have k0: "1 \<le> k" by (cases k) simp_all
    from k k0 less.prems(1) have a: "i + 8 \<le> j" by arith
    from k k0 have "j - (i + 8) = 8 * (k - 1)" by arith
    then have b: "8 dvd j - (i + 8)" by simp
    have c: "capacity ?d' \<le> j" using less.prems(4) by (simp only: getscomb_capacity)
    show ?thesis
      unfolding read_remaining_step[OF lt]
      by (rule less.hyps[OF m a less.prems(2) b c])
  qed
qed


text \<open>
  C4 fails on the code. A reply with status 0 whose length field is 4096 passes the
  validation (it is neither above 4096 nor 0). The loop then reads while
  \<open>i < 4096 + 8\<close>, so its last read starts at offset 4096 and stores its eight bytes at
  4096 to 4103, beyond the 4096-byte buffer; the refresh ends in a memory fault.
\<close>

theorem declared_length_4096_overruns_frame:
  "get_occdata_length
      (mem (snd (fst (occ_send_cmd (echo_bus reply_4096) 0 0 1 poll_byte 0 (fresh_frame no_bytes) 0))))
     = 4096
   \<and> \<not> unat (4096 :: u16) > OCC_DATA_MAX \<and> \<not> unat (4096 :: u16) \<le> 0
   \<and> 4096 \<in> set (overrun (fst (read_remaining (echo_bus reply_4096) 8 (unat (4096 :: u16) + 8)
           (snd (fst (occ_send_cmd (echo_bus reply_4096) 0 0 1 poll_byte 0 (fresh_frame no_bytes) 0)))
           9)))
   \<and> occ_get_all (echo_bus reply_4096) 0 no_bytes (reset_response, heap0, 0) = None"
proof -
  define F where "F = fold (\<lambda>i d. poke d i (reply_4096 (7 - i))) [0..<8] (fresh_frame no_bytes)"
  have sc: "occ_send_cmd (echo_bus reply_4096) 0 0 1 poll_byte 0 (fresh_frame no_bytes) 0
              = ((mem F 2, F), 9)"
    by (simp only: echo_send_cmd F_def) simp
  have st: "mem F 2 = 0"
    by (simp add: F_def upt_rec poke_def reply_4096_def fresh_frame_def OCC_DATA_MAX_def)
  have len: "get_occdata_length (mem F) = 4096"
    by (simp add: F_def upt_rec poke_def reply_4096_def fresh_frame_def OCC_DATA_MAX_def
          get_occdata_length_def be16_at_def RESP_DATA_LENGTH_def)
  have cap: "capacity F = 4096"
    by (simp add: F_def fold_poke_capacity[where f = "\<lambda>i. i"] fresh_frame_def OCC_DATA_MAX_def)
  have hit: "4096 \<in> set (overrun (fst (read_remaining (echo_bus reply_4096) 8 (unat (4096 :: u16) + 8) F 9)))"
    by (rule echo_read_remaining_hits) (simp_all add: cap)
  then have ne: "overrun (fst (read_remaining (echo_bus reply_4096) 8 (unat (4096 :: u16) + 8) F 9)) \<noteq> []"
    by auto
  have "occ_get_all (echo_bus reply_4096) 0 no_bytes (reset_response, heap0, 0) = None"
    using ne
    by (simp add: occ_get_all_def devm_kzalloc_def heap0_def Let_def case_prod_beta
          poll_byte_def[symmetric] sc st len OCC_DATA_MAX_def)
  with sc len hit show ?thesis by (simp add: OCC_DATA_MAX_def)
qed

section \<open>Two replies in a row: what the storage manager leaves behind\<close>

text \<open>
  C8 fails on the code. First reply: one FREQ block with one record; the parse
  allocates the block list at address 1 and the record array at address 2 and sets the
  FREQ index to 0. Second reply: the same block with a record count of 0. The parse
  succeeds and frees the array, but the FREQ index is still 0 and block 0 still holds
  the pointer: a reader of FREQ gets the address of freed storage, not \<^verbatim>\<open>NULL\<close>.
\<close>

theorem empty_block_leaves_stale_index:
  "do {
     (r1, p1, h1) \<leftarrow> parse_occ_response (reply_with 1 freq_block_1) (reset_response, heap0);
     (r2, p2, h2) \<leftarrow> parse_occ_response (reply_with 1 freq_block_0) (p1, h1);
     Some (r1, freq_block_id p1, occ_get_sensor_by_type p1 h1 Freq, cells h1 2,
           r2, freq_block_id p2, occ_get_sensor_by_type p2 h2 Freq, cells h2 2)
   } = Some (Inr (), 0, Some 2, Some (SensorArr [\<lparr>sensor_id = 1, sensor_value = 3000\<rparr>]),
             Inr (), 0, Some 2, None)"
  by code_simp

text \<open>
  C7 fails on the code. First reply: a POWR block and a FREQ block, one record each;
  the FREQ array is block 1's. Second reply: the same two blocks in the other order.
  For block 0, now FREQ, \<^verbatim>\<open>occ_renew_sensor\<close> finds the old array through the old index,
  sees the same count and allocates nothing; the record loop then stores through
  \<^verbatim>\<open>resp->blocks[0].sensor\<close>, which is \<^verbatim>\<open>NULL\<close>, instead of through the array it was to
  reuse.
\<close>

theorem moved_block_is_not_reused:
  "do {
     (r1, p1, h1) \<leftarrow> parse_occ_response (reply_with 2 (powr_block_1 @ freq_block_1))
                       (reset_response, heap0);
     b0 \<leftarrow> block_at h1 (blocks p1) 0;
     Some (r1, freq_block_id p1, occ_get_sensor_by_type p1 h1 Freq, sensor b0,
           map_option (\<lambda>(ret, p, h). (ret, p = p1, allocs h = allocs h1, cells h 3 = cells h1 3))
             (occ_renew_sensor (p1, h1) 4 1 Freq 0),
           map_option fst (parse_occ_response (reply_with 2 (freq_block_1 @ powr_block_1)) (p1, h1)))
   } = Some (Inr (), 1, Some 3, 0, Some (0, True, True, True), None)"
  by code_simp

section \<open>An unknown tag anywhere in the block list\<close>

lemma strncpy_length: "length (strncpy src n) = n"
  by (induction n arbitrary: src) auto

lemma strncpy_eq:
  "(0::u8) \<notin> set ys \<Longrightarrow> length ys = n \<Longrightarrow> strncpy src n = ys \<longleftrightarrow> map src [0..<n] = ys"
proof (induction n arbitrary: src ys)
  case 0
  then show ?case by simp
next
  case (Suc n)
  then obtain y ys' where ys: "ys = y # ys'" by (cases ys) auto
  with Suc.prems have y: "y \<noteq> 0" and r: "0 \<notin> set ys'" "length ys' = n" by auto
  have m: "map src [0..<Suc n] = src 0 # map (src \<circ> Suc) [0..<n]" by (rule map_upt_shift)
  show ?case
  proof (cases "src 0 = 0")
    case True
    then show ?thesis using y unfolding ys m by auto
  next
    case False
    then show ?thesis using Suc.IH[OF r, of "src \<circ> Suc"] unfolding ys m by (simp add: comp_def)
  qed
qed

lemma tag_test:
  assumes "length s = 4" "(0::u8) \<notin> of_char ` set s"
  shows "strncmp_eq ((!) (strncpy (\<lambda>i. data (dnum + i)) 4)) (cstr s) 4
           \<longleftrightarrow> tag_at data dnum = map of_char s"
proof -
  let ?c = "strncpy (\<lambda>i. data (dnum + i)) 4"
  have "map ((!) ?c) [0..<4] = ?c"
    using map_nth[of ?c] by (simp only: strncpy_length)
  then have "strncmp_eq ((!) ?c) (cstr s) 4 \<longleftrightarrow> ?c = map of_char s"
    by (simp only: strncmp_tag[OF assms])
  also have "\<dots> \<longleftrightarrow> map (\<lambda>i. data (dnum + i)) [0..<4] = map of_char s"
    by (rule strncpy_eq) (use assms in auto)
  finally show ?thesis by (simp only: tag_at_def)
qed

lemma tag_tests:
  "strncmp_eq ((!) (strncpy (\<lambda>i. data (dnum + i)) 4)) (cstr ''FREQ'') 4
     \<longleftrightarrow> tag_at data dnum = map of_char ''FREQ''"
  "strncmp_eq ((!) (strncpy (\<lambda>i. data (dnum + i)) 4)) (cstr ''TEMP'') 4
     \<longleftrightarrow> tag_at data dnum = map of_char ''TEMP''"
  "strncmp_eq ((!) (strncpy (\<lambda>i. data (dnum + i)) 4)) (cstr ''POWR'') 4
     \<longleftrightarrow> tag_at data dnum = map of_char ''POWR''"
  "strncmp_eq ((!) (strncpy (\<lambda>i. data (dnum + i)) 4)) (cstr ''CAPS'') 4
     \<longleftrightarrow> tag_at data dnum = map of_char ''CAPS''"
  by (rule tag_test; simp)+

text \<open>The loop body, by sensor type.\<close>

lemma parse_block_by_type:
  "parse_block data b dnum (resp, h) =
     (case tag_type (tag_at data dnum) of
        None \<Rightarrow> do { (resp, h) \<leftarrow> deinit_occ_resp_buf (resp, h);
                     Some (Return UnsupportedSensorType resp h) }
      | Some t \<Rightarrow>
          do {
            (ret, resp, h) \<leftarrow> occ_renew_sensor (resp, h) (data (dnum + 6)) (data (dnum + 7)) t (int b);
            if ret \<noteq> 0 then Some (Continue (dnum + 8) resp h)
            else do {
              (dnum', h) \<leftarrow> decode_records t data (blocks resp) b (data (dnum + 6))
                              (unat (data (dnum + 7))) 0 (dnum + 8) h;
              h \<leftarrow> update_block h (blocks resp) (int b) (keep_prologue data dnum);
              Some (Continue dnum' (set_block_id t (int b) resp) h)
            }
          })"
  unfolding parse_block_def Let_def tag_tests
  by (auto simp add: tag_type_def set_block_id_def decode_records_def keep_prologue_def[abs_def]
        intro!: bind_option_cong split: prod.splits)

lemma kcalloc_ok:
  "\<not> oom h (allocs h) \<Longrightarrow>
     kcalloc c h = (Suc (allocs h), h\<lparr>cells := (cells h)(Suc (allocs h) \<mapsto> c), allocs := Suc (allocs h)\<rparr>)"
  by (simp add: kcalloc_def Let_def)

lemma update_block_Some:
  assumes "update_block h bp i f = Some h'"
  obtains bs where "load h bp = Some (BlockArr bs)" "0 \<le> i" "nat i < length bs"
    "h' = h\<lparr>cells := (cells h)(bp \<mapsto> BlockArr (bs[nat i := f (bs ! nat i)]))\<rparr>"
  using assms
  by (auto simp add: update_block_def split: option.splits cell.splits if_splits)

lemma load_live: "load h p = Some c \<Longrightarrow> p \<noteq> 0 \<and> cells h p = Some c"
  by (auto simp add: load_def split: if_splits)

lemma array_edit_refl: "array_edit h h"
  by (simp add: array_edit_def)

lemma array_edit_trans: "array_edit h h1 \<Longrightarrow> array_edit h1 h2 \<Longrightarrow> array_edit h h2"
  by (simp add: array_edit_def)

lemma store_occ_sensor_edit: "store_occ_sensor h p s f = Some h' \<Longrightarrow> array_edit h h'"
  by (auto simp add: store_occ_sensor_def array_edit_def dest!: load_live
        split: option.splits cell.splits if_splits)

lemma store_power_sensor_edit: "store_power_sensor h p s f = Some h' \<Longrightarrow> array_edit h h'"
  by (auto simp add: store_power_sensor_def array_edit_def dest!: load_live
        split: option.splits cell.splits if_splits)

lemma store_caps_sensor_edit: "store_caps_sensor h p s f = Some h' \<Longrightarrow> array_edit h h'"
  by (auto simp add: store_caps_sensor_def array_edit_def dest!: load_live
        split: option.splits cell.splits if_splits)

lemma decode_occ_sensors_edit:
  "decode_occ_sensors data bp b len k s dnum h = Some (dnum', h') \<Longrightarrow>
     dnum' = dnum + k * unat len \<and> array_edit h h'"
proof (induction k arbitrary: s dnum h)
  case 0
  then show ?case by (simp add: array_edit_refl)
next
  case (Suc k)
  from Suc.prems obtain p h1 f where
    "store_occ_sensor h p s f = Some h1"
    "decode_occ_sensors data bp b len k (Suc s) (dnum + unat len) h1 = Some (dnum', h')"
    by (auto simp add: bind_eq_Some_conv)
  from store_occ_sensor_edit[OF this(1)] Suc.IH[OF this(2)] show ?case
    by (auto intro: array_edit_trans)
qed

lemma decode_power_sensors_edit:
  "decode_power_sensors data bp b len k s dnum h = Some (dnum', h') \<Longrightarrow>
     dnum' = dnum + k * unat len \<and> array_edit h h'"
proof (induction k arbitrary: s dnum h)
  case 0
  then show ?case by (simp add: array_edit_refl)
next
  case (Suc k)
  from Suc.prems obtain p h1 f where
    "store_power_sensor h p s f = Some h1"
    "decode_power_sensors data bp b len k (Suc s) (dnum + unat len) h1 = Some (dnum', h')"
    by (auto simp add: bind_eq_Some_conv)
  from store_power_sensor_edit[OF this(1)] Suc.IH[OF this(2)] show ?case
    by (auto intro: array_edit_trans)
qed

lemma decode_caps_sensors_edit:
  "decode_caps_sensors data bp b len k s dnum h = Some (dnum', h') \<Longrightarrow>
     dnum' = dnum + k * unat len \<and> array_edit h h'"
proof (induction k arbitrary: s dnum h)
  case 0
  then show ?case by (simp add: array_edit_refl)
next
  case (Suc k)
  from Suc.prems obtain p h1 f where
    "store_caps_sensor h p s f = Some h1"
    "decode_caps_sensors data bp b len k (Suc s) (dnum + unat len) h1 = Some (dnum', h')"
    by (auto simp add: bind_eq_Some_conv)
  from store_caps_sensor_edit[OF this(1)] Suc.IH[OF this(2)] show ?case
    by (auto intro: array_edit_trans)
qed

lemma decode_records_edit:
  "decode_records t data bp b len k s dnum h = Some (dnum', h') \<Longrightarrow>
     dnum' = dnum + k * unat len \<and> array_edit h h'"
  by (cases t)
     (simp_all add: decode_records_def decode_occ_sensors_edit decode_power_sensors_edit
        decode_caps_sensors_edit)

text \<open>How \<open>owned\<close> moves along the steps of the loop body.\<close>

lemma ownedD:
  "owned h0 bp b h \<Longrightarrow> load h bp = Some (BlockArr bs) \<Longrightarrow> cells h a \<noteq> None \<Longrightarrow>
     cells h0 a \<noteq> None \<or> a = bp \<or> (\<exists>i. i < b \<and> i < length bs \<and> a \<in> array_ptrs (bs ! i))"
  unfolding owned_def by (elim allE[of _ bs] allE[of _ a]) simp

lemma ownedI:
  "(\<And>bs a. load h bp = Some (BlockArr bs) \<Longrightarrow> cells h a \<noteq> None \<Longrightarrow>
      cells h0 a \<noteq> None \<or> a = bp \<or> (\<exists>i. i < b \<and> i < length bs \<and> a \<in> array_ptrs (bs ! i)))
   \<Longrightarrow> owned h0 bp b h"
  unfolding owned_def by simp

lemma owned_mono:
  assumes "owned h0 bp b h" "b \<le> c"
  shows "owned h0 bp c h"
proof (rule ownedI)
  fix bs a
  assume "load h bp = Some (BlockArr bs)" "cells h a \<noteq> None"
  from ownedD[OF assms(1) this] assms(2)
  show "cells h0 a \<noteq> None \<or> a = bp \<or> (\<exists>i. i < c \<and> i < length bs \<and> a \<in> array_ptrs (bs ! i))"
    by (elim disjE exE conjE) (simp, simp, rule disjI2, rule disjI2, rule_tac x = i in exI, simp)
qed

lemma owned_shrinks:
  assumes o: "owned h0 bp b h" and s: "shrinks h h'"
  shows "owned h0 bp b h'"
proof (rule ownedI)
  fix bs a
  assume l: "load h' bp = Some (BlockArr bs)" and a: "cells h' a \<noteq> None"
  from shrinks_load[OF s l] have 1: "load h bp = Some (BlockArr bs)" .
  from a shrinks_dead[OF s, of a] have 2: "cells h a \<noteq> None" by (cases "cells h a") simp_all
  from ownedD[OF o 1 2]
  show "cells h0 a \<noteq> None \<or> a = bp \<or> (\<exists>i. i < b \<and> i < length bs \<and> a \<in> array_ptrs (bs ! i))" .
qed

lemma array_edit_load:
  "array_edit h h' \<Longrightarrow> load h' bp = Some (BlockArr bs) \<longleftrightarrow> load h bp = Some (BlockArr bs)"
  by (simp add: array_edit_def load_def)

lemma array_edit_live:
  assumes "array_edit h h'" "cells h' a \<noteq> None"
  shows "cells h a \<noteq> None"
proof -
  from assms(1) have "\<forall>a. (cells h' a = None) \<longleftrightarrow> (cells h a = None)"
    by (simp add: array_edit_def)
  with assms(2) show ?thesis by simp
qed

lemma owned_array_edit:
  assumes o: "owned h0 bp b h" and e: "array_edit h h'"
  shows "owned h0 bp b h'"
proof (rule ownedI)
  fix bs a
  assume l: "load h' bp = Some (BlockArr bs)" and a: "cells h' a \<noteq> None"
  from l have 1: "load h bp = Some (BlockArr bs)" by (simp only: array_edit_load[OF e])
  from a have 2: "cells h a \<noteq> None" by (rule array_edit_live[OF e])
  from ownedD[OF o 1 2]
  show "cells h0 a \<noteq> None \<or> a = bp \<or> (\<exists>i. i < b \<and> i < length bs \<and> a \<in> array_ptrs (bs ! i))" .
qed

lemma load_upd_same: "p \<noteq> 0 \<Longrightarrow> load (h\<lparr>cells := (cells h)(p \<mapsto> c)\<rparr>) p = Some c"
  by (simp add: load_def)

lemma owned_keep:
  assumes o: "owned h0 bp c h" and u: "update_block h bp i f = Some h'"
    and f: "\<And>blk. array_ptrs (f blk) = array_ptrs blk"
  shows "owned h0 bp c h'"
proof (rule ownedI)
  fix bs' a
  assume l: "load h' bp = Some (BlockArr bs')" and a: "cells h' a \<noteq> None"
  from u obtain bs where bs: "load h bp = Some (BlockArr bs)" "nat i < length bs"
    "h' = h\<lparr>cells := (cells h)(bp \<mapsto> BlockArr (bs[nat i := f (bs ! nat i)]))\<rparr>"
    by (rule update_block_Some)
  from bs(1) have nz: "bp \<noteq> 0" by (simp add: load_live)
  from l have bs': "bs' = bs[nat i := f (bs ! nat i)]"
    unfolding bs(3) by (simp add: load_upd_same[OF nz])
  have p: "array_ptrs (bs' ! j) = array_ptrs (bs ! j)" for j
    unfolding bs' using bs(2) f by (cases "j = nat i") simp_all
  have len: "length bs' = length bs" unfolding bs' by simp
  show "cells h0 a \<noteq> None \<or> a = bp \<or> (\<exists>j. j < c \<and> j < length bs' \<and> a \<in> array_ptrs (bs' ! j))"
  proof (cases "a = bp")
    case True
    then show ?thesis by simp
  next
    case False
    with a have "cells h a \<noteq> None" unfolding bs(3) by simp
    from ownedD[OF o bs(1) this] False show ?thesis
      by (simp only: p len)
  qed
qed

lemma owned_alloc:
  assumes o: "owned h0 bp b h"
    and u: "update_block (h\<lparr>cells := (cells h)(p \<mapsto> c), allocs := n\<rparr>) bp (int b) f = Some h'"
    and c: "\<And>bs. c \<noteq> BlockArr bs"
    and f: "\<And>blk. p \<in> array_ptrs (f blk)"
  shows "owned h0 bp (Suc b) h'"
proof (rule ownedI)
  fix bs' a
  assume l: "load h' bp = Some (BlockArr bs')" and a: "cells h' a \<noteq> None"
  let ?h1 = "h\<lparr>cells := (cells h)(p \<mapsto> c), allocs := n\<rparr>"
  from u obtain bs where bs: "load ?h1 bp = Some (BlockArr bs)" "nat (int b) < length bs"
    "h' = ?h1\<lparr>cells := (cells ?h1)(bp \<mapsto> BlockArr (bs[nat (int b) := f (bs ! nat (int b))]))\<rparr>"
    by (rule update_block_Some)
  from bs(1) have nz: "bp \<noteq> 0" by (simp add: load_live)
  from bs(1) c have pb: "p \<noteq> bp" by (auto simp add: load_def split: if_splits)
  with bs(1) nz have lb: "load h bp = Some (BlockArr bs)" by (simp add: load_def)
  from l have bs': "bs' = bs[b := f (bs ! b)]"
    unfolding bs(3) by (simp add: load_def nz)
  from bs(2) have bl: "b < length bs" by simp
  have len: "length bs' = length bs" unfolding bs' by simp
  have same: "bs' ! j = bs ! j" if "j < b" for j unfolding bs' using that by simp
  show "cells h0 a \<noteq> None \<or> a = bp \<or> (\<exists>j. j < Suc b \<and> j < length bs' \<and> a \<in> array_ptrs (bs' ! j))"
  proof (cases "a = bp")
    case True
    then show ?thesis by simp
  next
    case nb: False
    show ?thesis
    proof (cases "a = p")
      case True
      have "b < Suc b \<and> b < length bs' \<and> a \<in> array_ptrs (bs' ! b)"
        unfolding True bs' using bl f[of "bs ! b"] by simp
      then show ?thesis by blast
    next
      case False
      with a nb have "cells h a \<noteq> None" unfolding bs(3) by simp
      from ownedD[OF o lb this] nb
      consider "cells h0 a \<noteq> None" | j where "j < b" "j < length bs" "a \<in> array_ptrs (bs ! j)"
        by blast
      then show ?thesis
      proof cases
        case 1
        then show ?thesis by simp
      next
        case 2
        then have "j < Suc b \<and> j < length bs' \<and> a \<in> array_ptrs (bs' ! j)"
          by (simp add: len same)
        then show ?thesis by blast
      qed
    qed
  qed
qed

lemma shrinks_oom: "shrinks h h' \<Longrightarrow> oom h' = oom h"
  by (simp add: shrinks_def)

lemma update_block_oom: "update_block h bp i f = Some h' \<Longrightarrow> oom h' = oom h"
  by (erule update_block_Some) simp

lemma array_edit_oom: "array_edit h h' \<Longrightarrow> oom h' = oom h"
  by (simp add: array_edit_def)

lemma renew_arm_ok:
  assumes noom: "\<forall>n. \<not> oom h n"
    and r: "renew_arm (resp, h) sensor' num old_id set_ptr zeroed (int b) = Some (ret, resp2, h2)"
    and o: "owned h0 (blocks resp) b h"
    and z: "\<And>bs. zeroed \<noteq> BlockArr bs"
    and f: "\<And>p blk. p \<noteq> 0 \<Longrightarrow> p \<in> array_ptrs (set_ptr p blk)"
  shows "ret = 0 \<and> resp2 = resp \<and> oom h2 = oom h \<and> owned h0 (blocks resp) (Suc b) h2"
proof -
  let ?D = "if sensor' = 0 then Some True
            else map_option (\<lambda>b. num \<noteq> num_of_sensors b) (block_at h (blocks resp) old_id)"
  have "?D \<noteq> None"
  proof
    assume "?D = None"
    then have "renew_arm (resp, h) sensor' num old_id set_ptr zeroed (int b) = None"
      by (simp only: renew_arm_def prod.case bind.bind_lzero)
    with r show False by simp
  qed
  then obtain differs where D: "?D = Some differs" by blast
  show ?thesis
  proof (cases differs)
    case False
    with r D have "Some (0, resp, h) = Some (ret, resp2, h2)"
      by (simp only: renew_arm_def prod.case bind.bind_lunit if_False)
    then have "ret = 0" "resp2 = resp" "h2 = h" by simp_all
    with owned_mono[OF o, of "Suc b"] show ?thesis by simp
  next
    case True
    have "kfree sensor' h \<noteq> None"
    proof
      assume "kfree sensor' h = None"
      with D True have "renew_arm (resp, h) sensor' num old_id set_ptr zeroed (int b) = None"
        by (simp only: renew_arm_def prod.case bind.bind_lunit if_True bind.bind_lzero)
      with r show False by simp
    qed
    then obtain h1 where k: "kfree sensor' h = Some h1" by blast
    have s: "shrinks h h1" by (rule kfree_shrinks[OF k])
    have oo: "oom h1 = oom h" by (rule shrinks_oom[OF s])
    with noom have "\<not> oom h1 (allocs h1)" by simp
    note kc = kcalloc_ok[OF this, of zeroed]
    let ?p = "Suc (allocs h1)"
    let ?h = "h1\<lparr>cells := (cells h1)(?p \<mapsto> zeroed), allocs := ?p\<rparr>"
    have "update_block ?h (blocks resp) (int b) (set_ptr ?p) \<noteq> None"
    proof
      assume "update_block ?h (blocks resp) (int b) (set_ptr ?p) = None"
      with D True k have "renew_arm (resp, h) sensor' num old_id set_ptr zeroed (int b) = None"
        by (simp only: renew_arm_def prod.case bind.bind_lunit if_True kc bind.bind_lzero)
      with r show False by simp
    qed
    then obtain h3 where u: "update_block ?h (blocks resp) (int b) (set_ptr ?p) = Some h3" by blast
    have "renew_arm (resp, h) sensor' num old_id set_ptr zeroed (int b) = Some (0, resp, h3)"
      using D True k u
      by (simp only: renew_arm_def prod.case bind.bind_lunit if_True kc nat.distinct if_False)
    with r have res: "ret = 0" "resp2 = resp" "h2 = h3" by simp_all
    have o1: "owned h0 (blocks resp) b h1" by (rule owned_shrinks[OF o s])
    have "owned h0 (blocks resp) (Suc b) h3"
      by (rule owned_alloc[OF o1 u z f]) simp
    moreover have "oom h3 = oom h" using update_block_oom[OF u] oo by simp
    ultimately show ?thesis using res by simp
  qed
qed

lemma set_ptr_in:
  "p \<noteq> 0 \<Longrightarrow> p \<in> array_ptrs (blk\<lparr>sensor := p\<rparr>)"
  "p \<noteq> 0 \<Longrightarrow> p \<in> array_ptrs (blk\<lparr>power_arr := p\<rparr>)"
  "p \<noteq> 0 \<Longrightarrow> p \<in> array_ptrs (blk\<lparr>caps_arr := p\<rparr>)"
  by (simp_all add: array_ptrs_def)

lemma renew_sensor_ok:
  assumes noom: "\<forall>n. \<not> oom h n"
    and r: "occ_renew_sensor (resp, h) len num t (int b) = Some (ret, resp2, h2)"
    and o: "owned h0 (blocks resp) b h"
  shows "resp2 = resp \<and> oom h2 = oom h \<and> (ret \<noteq> 0 \<longrightarrow> num = 0 \<or> len = 0)
         \<and> owned h0 (blocks resp) (Suc b) h2"
proof -
  from r obtain sensor' where
    g: "occ_get_sensor_by_type resp h t = Some sensor'" 
    by (auto simp add: occ_renew_sensor_def bind_eq_Some_conv)
  show ?thesis
  proof (cases "num = 0 \<or> len = 0")
    case True
    with r g obtain h1 where k: "kfree sensor' h = Some h1" and res: "resp2 = resp" "h2 = h1"
      by (auto simp add: occ_renew_sensor_def bind_eq_Some_conv)
    have s: "shrinks h h1" by (rule kfree_shrinks[OF k])
    from owned_mono[OF owned_shrinks[OF o s], of "Suc b"] shrinks_oom[OF s] res True
    show ?thesis by simp
  next
    case False
    show ?thesis
    proof (cases t)
      case Freq
      with r g False have "renew_arm (resp, h) sensor' num (freq_block_id resp)
          (\<lambda>p b. b\<lparr>sensor := p\<rparr>) (SensorArr (replicate (unat num) zero_sensor)) (int b)
          = Some (ret, resp2, h2)"
        by (simp add: occ_renew_sensor_def)
      from renew_arm_ok[OF noom this o] show ?thesis by (simp add: set_ptr_in)
    next
      case Temp
      with r g False have "renew_arm (resp, h) sensor' num (temp_block_id resp)
          (\<lambda>p b. b\<lparr>sensor := p\<rparr>) (SensorArr (replicate (unat num) zero_sensor)) (int b)
          = Some (ret, resp2, h2)"
        by (simp add: occ_renew_sensor_def)
      from renew_arm_ok[OF noom this o] show ?thesis by (simp add: set_ptr_in)
    next
      case Power
      with r g False have "renew_arm (resp, h) sensor' num (power_block_id resp)
          (\<lambda>p b. b\<lparr>power_arr := p\<rparr>) (PowerArr (replicate (unat num) zero_power)) (int b)
          = Some (ret, resp2, h2)"
        by (simp add: occ_renew_sensor_def)
      from renew_arm_ok[OF noom this o] show ?thesis by (simp add: set_ptr_in)
    next
      case Caps
      with r g False have "renew_arm (resp, h) sensor' num (caps_block_id resp)
          (\<lambda>p b. b\<lparr>caps_arr := p\<rparr>) (CapsArr (replicate (unat num) zero_caps)) (int b)
          = Some (ret, resp2, h2)"
        by (simp add: occ_renew_sensor_def)
      from renew_arm_ok[OF noom this o] show ?thesis by (simp add: set_ptr_in)
    qed
  qed
qed

lemma keep_prologue_ptrs: "array_ptrs (keep_prologue data dnum blk) = array_ptrs blk"
  by (simp add: keep_prologue_def array_ptrs_def)

lemma set_block_id_same:
  "blocks (set_block_id t b resp) = blocks resp" "header (set_block_id t b resp) = header resp"
  by (cases t; simp add: set_block_id_def)+

lemma parse_block_Return:
  assumes "parse_block data b dnum (resp, h) = Some (Return e resp2 h2)"
  shows "e = UnsupportedSensorType \<and> deinit_occ_resp_buf (resp, h) = Some (resp2, h2)"
proof (cases "tag_type (tag_at data dnum)")
  case None
  with assms show ?thesis
    by (cases "deinit_occ_resp_buf (resp, h)") (auto simp add: parse_block_by_type)
next
  case (Some t)
  let ?R = "occ_renew_sensor (resp, h) (data (dnum + 6)) (data (dnum + 7)) t (int b)"
  show ?thesis
  proof (cases ?R)
    case None
    with assms Some show ?thesis by (simp add: parse_block_by_type)
  next
    case R: (Some x)
    obtain ret r1 h1 where x: "x = (ret, r1, h1)" by (cases x)
    show ?thesis
    proof (cases "ret = 0")
      case False
      with assms Some R x show ?thesis by (simp add: parse_block_by_type)
    next
      case True
      let ?D = "decode_records t data (blocks r1) b (data (dnum + 6))
                  (unat (data (dnum + 7))) 0 (dnum + 8) h1"
      show ?thesis
      proof (cases ?D)
        case None
        with assms Some R x True show ?thesis by (simp add: parse_block_by_type)
      next
        case D: (Some y)
        obtain d' h1' where y: "y = (d', h1')" by (cases y)
        show ?thesis
          using assms Some R x True D y
          by (cases "update_block h1' (blocks r1) (int b) (keep_prologue data dnum)")
             (simp_all add: parse_block_by_type)
      qed
    qed
  qed
qed

lemma parse_block_Continue:
  assumes noom: "\<forall>n. \<not> oom h n"
    and p: "parse_block data b dnum (resp, h) = Some (Continue dnum' resp2 h2)"
    and o: "owned h0 (blocks resp) b h"
  shows "tag_type (tag_at data dnum) \<noteq> None \<and> dnum' = next_block data dnum
         \<and> blocks resp2 = blocks resp \<and> header resp2 = header resp \<and> oom h2 = oom h
         \<and> owned h0 (blocks resp) (Suc b) h2"
proof (cases "tag_type (tag_at data dnum)")
  case None
  with p show ?thesis
    by (cases "deinit_occ_resp_buf (resp, h)") (auto simp add: parse_block_by_type)
next
  case (Some t)
  let ?len = "data (dnum + 6)" and ?num = "data (dnum + 7)"
  let ?R = "occ_renew_sensor (resp, h) ?len ?num t (int b)"
  show ?thesis
  proof (cases ?R)
    case None
    with p Some show ?thesis by (simp add: parse_block_by_type)
  next
    case R: (Some x)
    obtain ret r1 h1 where x: "x = (ret, r1, h1)" by (cases x)
    from renew_sensor_ok[OF noom R[unfolded x] o]
    have rn: "r1 = resp" "oom h1 = oom h" "ret \<noteq> 0 \<longrightarrow> ?num = 0 \<or> ?len = 0"
      "owned h0 (blocks resp) (Suc b) h1" by simp_all
    show ?thesis
    proof (cases "ret = 0")
      case False
      with p Some R x have c: "dnum' = dnum + 8" "resp2 = r1" "h2 = h1"
        by (simp_all add: parse_block_by_type)
      from False rn(3) have "unat ?num * unat ?len = 0" by auto
      then have "next_block data dnum = dnum + 8" by (simp add: next_block_def)
      with c rn Some show ?thesis by simp
    next
      case True
      let ?D = "decode_records t data (blocks r1) b ?len (unat ?num) 0 (dnum + 8) h1"
      show ?thesis
      proof (cases ?D)
        case None
        with p Some R x True show ?thesis by (simp add: parse_block_by_type)
      next
        case D: (Some y)
        obtain d' h1' where y: "y = (d', h1')" by (cases y)
        from decode_records_edit[OF D[unfolded y]]
        have de: "d' = dnum + 8 + unat ?num * unat ?len" "array_edit h1 h1'" by simp_all
        let ?U = "update_block h1' (blocks r1) (int b) (keep_prologue data dnum)"
        show ?thesis
        proof (cases ?U)
          case None
          with p Some R x True D y show ?thesis by (simp add: parse_block_by_type)
        next
          case U: (Some h3)
          with p Some R x True D y have c: "dnum' = d'" "resp2 = set_block_id t (int b) r1" "h2 = h3"
            by (simp_all add: parse_block_by_type)
          have o1: "owned h0 (blocks resp) (Suc b) h1'"
            by (rule owned_array_edit[OF rn(4) de(2)])
          have o2: "owned h0 (blocks resp) (Suc b) h3"
            by (rule owned_keep[OF o1 U[unfolded rn(1)] keep_prologue_ptrs])
          have "oom h3 = oom h"
            using update_block_oom[OF U] array_edit_oom[OF de(2)] rn(2) by simp
          with c de(1) o2 rn(1) Some show ?thesis
            by (simp add: next_block_def set_block_id_same)
        qed
      qed
    qed
  qed
qed

lemma deinit_reads_list:
  assumes "blocks p \<noteq> 0" "deinit_occ_resp_buf (p, h) = Some (p', h')"
    "0 < unat (sensor_block_num (header p))"
  obtains bs where "load h (blocks p) = Some (BlockArr bs)"
proof -
  from assms(1,2) obtain h1 where
    "free_block_arrays (blocks p) 0 (unat (sensor_block_num (header p))) h = Some h1"
    by (auto simp add: deinit_occ_resp_buf_def bind_eq_Some_conv)
  moreover from assms(3) obtain k where "unat (sensor_block_num (header p)) = Suc k"
    by (cases "unat (sensor_block_num (header p))") auto
  ultimately obtain b where "block_at h (blocks p) (int 0) = Some b"
    by (auto simp add: bind_eq_Some_conv)
  from block_at_load[OF this] that show ?thesis by blast
qed

text \<open>Teardown of a state that owns its storage leaves only what was live before.\<close>

lemma deinit_owned:
  assumes nz: "blocks resp \<noteq> 0"
    and d: "deinit_occ_resp_buf (resp, h) = Some (resp', h')"
    and n: "unat (sensor_block_num (header resp)) = b + Suc m"
    and o: "owned h0 (blocks resp) b h"
  shows "resp' = reset_response \<and> (\<forall>a. cells h' a \<noteq> None \<longrightarrow> cells h0 a \<noteq> None)"
proof (intro conjI allI impI)
  show "resp' = reset_response" by (rule deinit_full(1)[OF nz d])
next
  fix a
  assume a: "cells h' a \<noteq> None"
  from n have pos: "0 < unat (sensor_block_num (header resp))" by simp
  from deinit_reads_list[OF nz d pos] obtain bs where
    bs: "load h (blocks resp) = Some (BlockArr bs)" .
  have sh: "shrinks h h'" by (rule deinit_full(3)[OF nz d])
  from a shrinks_dead[OF sh, of a] have la: "cells h a \<noteq> None" by (cases "cells h a") simp_all
  from ownedD[OF o bs la]
  consider "cells h0 a \<noteq> None" | "a = blocks resp"
    | i where "i < b" "i < length bs" "a \<in> array_ptrs (bs ! i)"
    by blast
  then show "cells h0 a \<noteq> None"
  proof cases
    case 1
    then show ?thesis .
  next
    case 2
    with deinit_full(2)[OF nz d] a show ?thesis by simp
  next
    case 3
    from 3(1) n have "i < unat (sensor_block_num (header resp))" by simp
    from deinit_full(4)[OF nz d bs this 3(3)] a show ?thesis by simp
  qed
qed

lemma parse_blocks_unknown:
  assumes "parse_blocks data m b dnum (resp, h) = Some (ret, resp', h')"
    and "j < m" and "tag_type (tag_at data (block_from data dnum j)) = None"
    and "\<forall>n. \<not> oom h n" and "blocks resp \<noteq> 0"
    and "unat (sensor_block_num (header resp)) = b + m"
    and "owned h0 (blocks resp) b h"
  shows "ret = Inl UnsupportedSensorType \<and> resp' = reset_response
         \<and> (\<forall>a. cells h' a \<noteq> None \<longrightarrow> cells h0 a \<noteq> None)"
  using assms
proof (induction m arbitrary: b dnum resp h j)
  case 0
  then show ?case by simp
next
  case (Suc m)
  from Suc.prems(1) obtain f where f: "parse_block data b dnum (resp, h) = Some f"
    by (auto simp add: bind_eq_Some_conv)
  show ?case
  proof (cases f)
    case (Return e r2 h2)
    with Suc.prems(1) f have res: "ret = Inl e" "resp' = r2" "h' = h2" by simp_all
    from parse_block_Return[OF f[unfolded Return]]
    have e: "e = UnsupportedSensorType" and d: "deinit_occ_resp_buf (resp, h) = Some (r2, h2)"
      by simp_all
    from deinit_owned[OF Suc.prems(5) d Suc.prems(6) Suc.prems(7)] res e
    show ?thesis by simp
  next
    case (Continue d r2 h2)
    with Suc.prems(1) f have rest: "parse_blocks data m (Suc b) d (r2, h2) = Some (ret, resp', h')"
      by simp
    from parse_block_Continue[OF Suc.prems(4) f[unfolded Continue] Suc.prems(7)]
    have c: "tag_type (tag_at data dnum) \<noteq> None" "d = next_block data dnum"
      "blocks r2 = blocks resp" "header r2 = header resp" "oom h2 = oom h"
      "owned h0 (blocks resp) (Suc b) h2" by simp_all
    from c(1) Suc.prems(3) obtain j' where j: "j = Suc j'" by (cases j) auto
    with Suc.prems(2) have 1: "j' < m" by simp
    from Suc.prems(3) j c(2) have 2: "tag_type (tag_at data (block_from data d j')) = None" by simp
    from Suc.prems(4) c(5) have 3: "\<forall>n. \<not> oom h2 n" by simp
    from Suc.prems(5) c(3) have 4: "blocks r2 \<noteq> 0" by simp
    from Suc.prems(6) c(4) have 5: "unat (sensor_block_num (header r2)) = Suc b + m" by simp
    from c(6) c(3) have 6: "owned h0 (blocks r2) (Suc b) h2" by simp
    from Suc.IH[OF rest 1 2 3 4 5 6] show ?thesis .
  qed
qed

lemma deinit_shrinks: "deinit_occ_resp_buf (p, h) = Some (p', h') \<Longrightarrow> shrinks h h'"
proof (cases "blocks p = 0")
  case True
  assume "deinit_occ_resp_buf (p, h) = Some (p', h')"
  with True show ?thesis by (simp add: deinit_null shrinks_refl)
next
  case False
  assume "deinit_occ_resp_buf (p, h) = Some (p', h')"
  from deinit_full(3)[OF False this] show ?thesis .
qed

lemma header_of_block_num: "sensor_block_num (header_of data) = data SENSOR_BLOCK_NUM_OFFSET"
  by (simp add: header_of_def RESP_HEADER_OFFSET_def SENSOR_BLOCK_NUM_OFFSET_def Let_def)

lemma owned_start: "owned h bp 0 h"
  by (rule ownedI) simp

lemma owned_fresh_list:
  assumes "shrinks h h1"
  shows "owned h p 0 (h1\<lparr>cells := (cells h1)(p \<mapsto> c), allocs := n\<rparr>)"
proof (rule ownedI)
  fix bs a
  assume a: "cells (h1\<lparr>cells := (cells h1)(p \<mapsto> c), allocs := n\<rparr>) a \<noteq> None"
  show "cells h a \<noteq> None \<or> a = p
        \<or> (\<exists>i. i < 0 \<and> i < length bs \<and> a \<in> array_ptrs (bs ! i))"
  proof (cases "a = p")
    case False
    with a have "cells h1 a \<noteq> None" by simp
    with shrinks_dead[OF assms, of a] have "cells h a \<noteq> None" by (cases "cells h a") simp_all
    then show ?thesis by simp
  qed simp
qed

text \<open>
  The failure path when it is reached and left without a memory fault. Take a reply with
  the signature in place and an unknown tag at some block \<open>k\<close> of its block list (the
  blocks laid out one after the other), an allocator that refuses nothing, and a
  previous state that has a block list whenever its header counts blocks. If the parse
  returns, it returns \<open>UnsupportedSensorType\<close>, the response state is the reset state
  (no block list, the four indices at \<open>-1\<close>, everything else zero), and every object
  that is still live was live before the parse.
\<close>

lemma unknown_tag_when_parse_returns:
  assumes sig: "map (\<lambda>i. data (SENSOR_STR_OFFSET + i)) [0..<6] = map of_char ''SENSOR''"
    and k: "k < unat (data SENSOR_BLOCK_NUM_OFFSET)"
    and unk: "tag_type (tag_at data (block_from data SENSOR_BLOCK_OFFSET k)) = None"
    and noom: "\<forall>n. \<not> oom h n"
    and wf: "blocks resp = 0 \<longrightarrow> sensor_block_num (header resp) = 0"
    and run: "parse_occ_response data (resp, h) = Some (ret, resp', h')"
  shows "ret = Inl UnsupportedSensorType \<and> resp' = reset_response
         \<and> (\<forall>a. cells h' a \<noteq> None \<longrightarrow> cells h a \<noteq> None)"
proof -
  let ?n = "data SENSOR_BLOCK_NUM_OFFSET"
  have s: "strncmp_eq (\<lambda>i. data (SENSOR_STR_OFFSET + i)) (cstr ''SENSOR'') 6"
    unfolding strncmp_SENSOR by (rule sig)
  from k have nz: "?n \<noteq> 0" by auto
  show ?thesis
  proof (cases "?n = sensor_block_num (header resp)")
    case True
    with nz wf have b: "blocks resp \<noteq> 0" by auto
    from run s nz True
    have p: "parse_blocks data (unat ?n) 0 SENSOR_BLOCK_OFFSET (resp\<lparr>header := header_of data\<rparr>, h)
               = Some (ret, resp', h')"
      by (simp add: parse_occ_response_def Let_def)
    show ?thesis
      by (rule parse_blocks_unknown[OF p k unk noom])
         (simp_all add: b header_of_block_num owned_start)
  next
    case False
    show ?thesis
    proof (cases "deinit_occ_resp_buf (resp, h)")
      case None
      with run s nz False show ?thesis by (simp add: parse_occ_response_def Let_def)
    next
      case (Some x)
      obtain r1 h1 where x: "x = (r1, h1)" by (cases x)
      have sh: "shrinks h h1" by (rule deinit_shrinks[OF Some[unfolded x]])
      with noom have "\<not> oom h1 (allocs h1)" by (simp add: shrinks_oom)
      note kc = kcalloc_ok[OF this, of "BlockArr (replicate (unat ?n) zero_block)"]
      let ?p = "Suc (allocs h1)"
      let ?h = "h1\<lparr>cells := (cells h1)(?p \<mapsto> BlockArr (replicate (unat ?n) zero_block)),
                    allocs := ?p\<rparr>"
      from run s nz False Some x
      have p: "parse_blocks data (unat ?n) 0 SENSOR_BLOCK_OFFSET
                 (r1\<lparr>blocks := ?p, header := header_of data\<rparr>, ?h) = Some (ret, resp', h')"
        by (simp add: parse_occ_response_def Let_def kc)
      have no: "\<forall>n. \<not> oom ?h n" using noom shrinks_oom[OF sh] by simp
      show ?thesis
        by (rule parse_blocks_unknown[OF p k unk no])
           (simp_all add: header_of_block_num owned_fresh_list[OF sh])
    qed
  qed
qed

lemma reply_freq_xyzz_runs:
  "\<not> Option.is_none (parse_occ_response reply_freq_xyzz (reset_response, heap0))"
  by code_simp

lemma unknown_tag_when_parse_returns_example:
  "(1::nat) < unat (reply_freq_xyzz SENSOR_BLOCK_NUM_OFFSET)
   \<and> tag_at reply_freq_xyzz (block_from reply_freq_xyzz SENSOR_BLOCK_OFFSET 1) = map of_char ''XYZZ''
   \<and> map_option (\<lambda>(ret, resp', h'). (ret, resp', cells h' 1, cells h' 2))
         (parse_occ_response reply_freq_xyzz (reset_response, heap0))
       = Some (Inl UnsupportedSensorType, reset_response, None, None)"
proof -
  obtain ret resp' h' where
    run: "parse_occ_response reply_freq_xyzz (reset_response, heap0) = Some (ret, resp', h')"
    using reply_freq_xyzz_runs
    by (cases "parse_occ_response reply_freq_xyzz (reset_response, heap0)") auto
  have sig: "map (\<lambda>i. reply_freq_xyzz (SENSOR_STR_OFFSET + i)) [0..<6] = map of_char ''SENSOR''"
    by code_simp
  have k: "(1::nat) < unat (reply_freq_xyzz SENSOR_BLOCK_NUM_OFFSET)"
    by code_simp
  have tag: "tag_at reply_freq_xyzz (block_from reply_freq_xyzz SENSOR_BLOCK_OFFSET 1)
               = map of_char ''XYZZ''"
    by code_simp
  have unk: "tag_type (tag_at reply_freq_xyzz (block_from reply_freq_xyzz SENSOR_BLOCK_OFFSET 1)) = None"
    unfolding tag by code_simp
  have noom: "\<forall>n. \<not> oom heap0 n" by (simp add: heap0_def)
  have wf: "blocks reset_response = 0 \<longrightarrow> sensor_block_num (header reset_response) = 0"
    by (simp add: reset_response_def zero_response_def zero_header_def)
  from unknown_tag_when_parse_returns[OF sig k unk noom wf run]
  have r: "ret = Inl UnsupportedSensorType" "resp' = reset_response"
    "\<forall>a. cells h' a \<noteq> None \<longrightarrow> cells heap0 a \<noteq> None" by simp_all
  from r(3) have "cells h' 1 = None" "cells h' 2 = None" by (auto simp add: heap0_def)
  with run r(1,2) k tag show ?thesis by simp
qed

text \<open>
  C6 fails on the code. From the freshly initialised state, take the reply of three
  blocks: FREQ with one record, FREQ with two records, then the unknown tag "XYZZ" (at
  byte 73). The block list is allocated at address 1 and block 0 gets its array at
  address 2. For block 1 \<^verbatim>\<open>occ_renew_sensor\<close> finds that array through the FREQ index,
  sees another record count and frees it, but block 0 keeps the pointer; block 1 gets
  the array at address 3 and the FREQ index becomes 1. At the unknown tag the teardown
  walks the block list and calls \<^verbatim>\<open>kfree\<close> on block 0's pointer a second time: the parse
  ends in a double free, not in the return of \<open>UnsupportedSensorType\<close> with every array
  and the block list released.
\<close>

theorem unknown_tag_teardown_frees_twice:
  "do {
     (p, h0) \<leftarrow> Some (kcalloc (BlockArr (replicate 3 zero_block)) heap0);
     (r2, p2, h2) \<leftarrow> parse_blocks reply_freq_freq_xyzz 2 0 SENSOR_BLOCK_OFFSET
                      (reset_response\<lparr>blocks := p, header := header_of reply_freq_freq_xyzz\<rparr>, h0);
     b0 \<leftarrow> block_at h2 (blocks p2) 0;
     b1 \<leftarrow> block_at h2 (blocks p2) 1;
     Some (r2, blocks p2, freq_block_id p2,
           sensor b0, cells h2 (sensor b0), sensor b1, cells h2 (sensor b1),
           block_from reply_freq_freq_xyzz SENSOR_BLOCK_OFFSET 2,
           tag_at reply_freq_freq_xyzz (block_from reply_freq_freq_xyzz SENSOR_BLOCK_OFFSET 2),
           Option.is_none (kfree (sensor b0) h2),
           Option.is_none (deinit_occ_resp_buf (p2, h2)),
           Option.is_none (parse_occ_response reply_freq_freq_xyzz (reset_response, heap0)))
   } = Some (Inr (), 1, 1,
             2, None, 3, Some (SensorArr [\<lparr>sensor_id = 1, sensor_value = 3000\<rparr>,
                                          \<lparr>sensor_id = 2, sensor_value = 3000\<rparr>]),
             73, map of_char ''XYZZ'', True, True, True)"
  by code_simp

text \<open>
  The same path with an allocator that refuses one request. The reply has two blocks,
  a FREQ block and, at byte 61, the block with the unknown tag. The request for the
  FREQ array is refused: \<^verbatim>\<open>occ_renew_sensor\<close> tears the state down and returns \<^verbatim>\<open>-ENOMEM\<close>,
  and the loop goes on to the next block without stepping over the records of this one.
  It reads the next prologue from the record bytes, here an empty CAPS block, and ends:
  the parse returns success and never looks at the unknown tag.
\<close>

lemma refused_allocation_hides_unknown_tag:
  "unat (reply_wide_xyzz SENSOR_BLOCK_NUM_OFFSET) = 2
   \<and> block_from reply_wide_xyzz SENSOR_BLOCK_OFFSET 1 = 61
   \<and> tag_at reply_wide_xyzz 61 = map of_char ''XYZZ''
   \<and> map_option (\<lambda>(ret, resp', h'). (ret, resp', cells h' 1, allocs h'))
         (parse_occ_response reply_wide_xyzz (reset_response, heap_refusing_second))
       = Some (Inr (), reset_response, None, 2)
   \<and> map_option (\<lambda>(ret, resp', h'). (ret, resp', cells h' 1, cells h' 2))
         (parse_occ_response reply_wide_xyzz (reset_response, heap0))
       = Some (Inl UnsupportedSensorType, reset_response, None, None)"
  by code_simp

section \<open>What holds of the storage manager and of the read loop\<close>

text \<open>
  When the type has a live index, its array pointer is not \<^verbatim>\<open>NULL\<close> and the record count
  is the stored one (and neither count nor length is 0), \<^verbatim>\<open>occ_renew_sensor\<close> frees
  nothing, allocates nothing and changes nothing.
\<close>

lemma renew_same_count_reuses:
  assumes "blocks resp \<noteq> 0" "block_id_of t resp \<noteq> - 1"
    and "block_at h (blocks resp) (block_id_of t resp) = Some blk"
    and "array_of t blk \<noteq> 0" "num_of_sensors blk = num" "num \<noteq> 0" "len \<noteq> 0"
  shows "occ_renew_sensor (resp, h) len num t block = Some (0, resp, h)"
  using assms
  by (cases t)
     (simp_all add: occ_renew_sensor_def occ_get_sensor_by_type_def renew_arm_def
        block_id_of_def array_of_def)

text \<open>
  When the declared length is at most the capacity less 8 (so that \<open>n\<close>, the length
  plus 8, is at most the capacity) and both the start and the capacity are multiples
  of 8, no read of the loop stores outside the buffer, on any bus.
\<close>

lemma getscomb_inside:
  assumes "off + 8 \<le> capacity d"
  shows "overrun (snd (fst (occ_getscomb bus a d off s))) = overrun d"
proof -
  have "filter (\<lambda>x. capacity d \<le> x) (map (\<lambda>i. off + i) [0..<8]) = []"
    using assms by (auto simp add: filter_empty_conv)
  then show ?thesis
    by (simp add: occ_getscomb_def Let_def case_prod_beta fold_poke_overrun)
qed

lemma read_remaining_inside:
  assumes "n \<le> capacity d" "8 dvd i" "8 dvd capacity d"
  shows "overrun (fst (read_remaining bus i n d s)) = overrun d"
  using assms
proof (induction "n - i" arbitrary: i d s rule: less_induct)
  case less
  show ?case
  proof (cases "i < n")
    case True
    let ?d' = "snd (fst (occ_getscomb bus OCB_DATA d i s))"
    from less.prems(2,3) obtain a c where ac: "i = 8 * a" "capacity d = 8 * c" by (auto elim!: dvdE)
    with True less.prems(1) have "a < c" by simp
    with ac have in8: "i + 8 \<le> capacity d" by simp
    have m: "n - (i + 8) < n - i" using True by arith
    have c': "capacity ?d' = capacity d" by (rule getscomb_capacity)
    have 1: "n \<le> capacity ?d'" using less.prems(1) by (simp only: c')
    have 2: "8 dvd i + 8" using less.prems(2) by simp
    have 3: "8 dvd capacity ?d'" using less.prems(3) by (simp only: c')
    show ?thesis
      unfolding read_remaining_step[OF True]
      using less.hyps[OF m 1 2 3] getscomb_inside[OF in8] by simp
  next
    case False
    then show ?thesis by (simp add: read_remaining_done)
  qed
qed

end
